theory Spec2Isabelle
  imports Complex_Main
begin

section \<open>The concept map editor: entity model\<close>

text \<open>
  The editor (\<open>cvt_concept_map_visual_editor.py\<close>) keeps its document in a
  \<open>CanvasWidget\<close>: a list of node objects, a list of arrow objects and a few
  fields of transient interaction state. Nodes and arrows are Python objects without
  \<open>__eq__\<close> or \<open>__hash__\<close>, so \<open>==\<close>, \<open>!=\<close>, \<open>is\<close>, \<open>list.remove\<close> and
  dictionary keys all go by object identity. The model therefore keeps the objects in an
  explicit store (a function from references to records) and lets the lists and fields
  hold references.

  Coordinates are Python floats. The model takes them as real numbers: it leaves out
  rounding, infinities and NaN. Text widths and heights are the integers Qt's
  \<open>QFontMetrics\<close> returns; Qt is not part of the program, so the two metrics
  functions are a parameter of every definition that creates or resizes a node.
\<close>

type_synonym point = "real \<times> real"

type_synonym ref = nat

datatype node_class = Node | TextNode

record node =
  n_class :: node_class
  n_x :: real
  n_y :: real
  n_text :: string
  n_selected :: bool
  n_w :: int
  n_h :: int

record font_metrics =
  horizontalAdvance :: "string \<Rightarrow> int"
  height :: int

text \<open>\<open>Node.set_text\<close> and its override \<open>TextNode.set_text\<close>; \<open>set_text\<close> is the
  method call, dispatched on the object's class.\<close>

definition Node_set_text :: "font_metrics \<Rightarrow> string \<Rightarrow> node \<Rightarrow> node" where
  "Node_set_text fm t n =
     (let text_width = horizontalAdvance fm t;
          text_height = height fm
      in n\<lparr>n_text := t, n_w := text_width + 18, n_h := text_height + 12\<rparr>)"

definition TextNode_set_text :: "font_metrics \<Rightarrow> string \<Rightarrow> node \<Rightarrow> node" where
  "TextNode_set_text fm t n =
     (let text_width = horizontalAdvance fm t;
          text_height = height fm
      in n\<lparr>n_text := t, n_w := text_width + 18, n_h := text_height + 12\<rparr>)"

definition set_text :: "font_metrics \<Rightarrow> string \<Rightarrow> node \<Rightarrow> node" where
  "set_text fm t n =
     (case n_class n of
        Node \<Rightarrow> Node_set_text fm t n
      | TextNode \<Rightarrow> TextNode_set_text fm t n)"

text \<open>\<open>Node.__init__\<close> (and \<open>TextNode.__init__\<close>, which only adds a constant
  background colour): the fields are stored, then \<open>set_text\<close> sizes the node.\<close>

definition new_node :: "font_metrics \<Rightarrow> node_class \<Rightarrow> real \<Rightarrow> real \<Rightarrow> string \<Rightarrow> node" where
  "new_node fm k px py t =
     set_text fm t
       \<lparr>n_class = k, n_x = px, n_y = py, n_text = t, n_selected = False, n_w = 0, n_h = 0\<rparr>"

definition center :: "node \<Rightarrow> point" where
  "center n = (n_x n + real_of_int (n_w n) / 2, n_y n + real_of_int (n_h n) / 2)"

text \<open>\<open>Node.contains\<close> is \<open>QRectF(x, y, w, h).contains(point)\<close>. Qt's test counts the
  edges as inside and rejects every point when the rectangle has no width or no height.\<close>

definition contains :: "node \<Rightarrow> point \<Rightarrow> bool" where
  "contains n p =
     (let l = (if n_w n < 0 then n_x n + real_of_int (n_w n) else n_x n);
          r = (if n_w n < 0 then n_x n else n_x n + real_of_int (n_w n));
          t = (if n_h n < 0 then n_y n + real_of_int (n_h n) else n_y n);
          b = (if n_h n < 0 then n_y n else n_y n + real_of_int (n_h n))
      in l \<noteq> r \<and> l \<le> fst p \<and> fst p \<le> r \<and> t \<noteq> b \<and> t \<le> snd p \<and> snd p \<le> b)"

text \<open>\<open>float('inf')\<close> is \<open>None\<close> in the two per-axis scales; \<open>min_scale\<close> is
  Python's \<open>min\<close> on them.\<close>

fun min_scale :: "real option \<Rightarrow> real option \<Rightarrow> real option" where
  "min_scale (Some a) (Some b) = Some (min a b)"
| "min_scale (Some a) None = Some a"
| "min_scale None (Some b) = Some b"
| "min_scale None None = None"

text \<open>\<open>Node.boundary_point\<close>. After the early return one of the two deltas is not
  zero, so the smaller scale is finite (lemma \<open>scale_finite\<close> below); the last case
  only makes the function total.\<close>

definition boundary_scale :: "node \<Rightarrow> real \<Rightarrow> real \<Rightarrow> real option" where
  "boundary_scale n dx dy =
     (let hw = real_of_int (n_w n) / 2;
          hh = real_of_int (n_h n) / 2;
          scale_x = (if dx \<noteq> 0 then Some (hw / \<bar>dx\<bar>) else None);
          scale_y = (if dy \<noteq> 0 then Some (hh / \<bar>dy\<bar>) else None)
      in min_scale scale_x scale_y)"

definition boundary_point :: "node \<Rightarrow> point \<Rightarrow> point" where
  "boundary_point n target =
     (let cx = fst (center n); cy = snd (center n);
          tx = fst target; ty = snd target;
          dx = tx - cx; dy = ty - cy
      in if dx = 0 \<and> dy = 0 then (cx, cy)
         else (case boundary_scale n dx dy of
                 Some scale \<Rightarrow> (cx + dx * scale, cy + dy * scale)
               | None \<Rightarrow> (cx, cy)))"


section \<open>Arrows and the canvas\<close>

record arrow =
  start_node :: ref
  end_node :: ref
  a_selected :: bool

text \<open>\<open>Arrow.points\<close> and \<open>Arrow.contains\<close> read the two node objects through the
  store. \<open>hypot\<close> is \<open>math.hypot\<close>.\<close>

definition points :: "(ref \<Rightarrow> node) \<Rightarrow> arrow \<Rightarrow> point \<times> point" where
  "points obj a =
     (let start = boundary_point (obj (start_node a)) (center (obj (end_node a)));
          end_pt = boundary_point (obj (end_node a)) (center (obj (start_node a)))
      in (start, end_pt))"

definition hypot :: "real \<Rightarrow> real \<Rightarrow> real" where
  "hypot a b = sqrt (a * a + b * b)"

definition arrow_contains :: "(ref \<Rightarrow> node) \<Rightarrow> arrow \<Rightarrow> point \<Rightarrow> real \<Rightarrow> bool" where
  "arrow_contains obj a pos tolerance =
     (let x0 = fst pos; y0 = snd pos;
          x1 = fst (fst (points obj a)); y1 = snd (fst (points obj a));
          x2 = fst (snd (points obj a)); y2 = snd (snd (points obj a));
          dx = x2 - x1; dy = y2 - y1
      in if dx = dy \<and> dy = 0 then hypot (x0 - x1) (y0 - y1) < tolerance
         else
           (let t0 = ((x0 - x1) * dx + (y0 - y1) * dy) / (dx * dx + dy * dy);
                t = max 0 (min 1 t0);
                proj_x = x1 + t * dx;
                proj_y = y1 + t * dy;
                dist = hypot (x0 - proj_x) (y0 - proj_y)
            in dist < tolerance))"

text \<open>
  The state of a \<open>CanvasWidget\<close>. \<open>node_obj\<close> and \<open>arrow_obj\<close> are the object
  stores; \<open>next_node\<close> and \<open>next_arrow\<close> are the references the next constructor
  call returns, so every new object is distinct from every object made before. The Qt
  widget state (cursor shape, the line edit's geometry and visibility) is left out; of the
  inline editor only \<open>editing_node\<close> is kept.
\<close>

record canvas =
  node_obj :: "ref \<Rightarrow> node"
  arrow_obj :: "ref \<Rightarrow> arrow"
  next_node :: ref
  next_arrow :: ref
  nodes :: "ref list"
  arrows :: "ref list"
  dragging_node :: "ref option"
  drag_offset :: point
  selected_node :: "ref option"
  selected_arrow :: "ref option"
  arrow_source_node :: "ref option"
  zoom :: real
  editing_node :: "ref option"

definition init_canvas :: canvas where
  "init_canvas =
     \<lparr>node_obj = (\<lambda>_. \<lparr>n_class = Node, n_x = 0, n_y = 0, n_text = [], n_selected = False,
                        n_w = 0, n_h = 0\<rparr>),
      arrow_obj = (\<lambda>_. \<lparr>start_node = 0, end_node = 0, a_selected = False\<rparr>),
      next_node = 0, next_arrow = 0, nodes = [], arrows = [],
      dragging_node = None, drag_offset = (0, 0),
      selected_node = None, selected_arrow = None, arrow_source_node = None,
      zoom = 1, editing_node = None\<rparr>"

datatype error = IndexError | KeyError | ValueError

text \<open>Constructing a node or an arrow and appending it to the canvas's list.\<close>

definition append_node :: "node \<Rightarrow> canvas \<Rightarrow> canvas" where
  "append_node n c =
     c\<lparr>node_obj := (node_obj c)(next_node c := n),
       nodes := nodes c @ [next_node c],
       next_node := Suc (next_node c)\<rparr>"

definition append_arrow :: "ref \<Rightarrow> ref \<Rightarrow> canvas \<Rightarrow> canvas" where
  "append_arrow s e c =
     c\<lparr>arrow_obj := (arrow_obj c)
          (next_arrow c := \<lparr>start_node = s, end_node = e, a_selected = False\<rparr>),
       arrows := arrows c @ [next_arrow c],
       next_arrow := Suc (next_arrow c)\<rparr>"

definition hide_editor :: "canvas \<Rightarrow> canvas" where
  "hide_editor c = c\<lparr>editing_node := None\<rparr>"

text \<open>\<open>select_arrow\<close> and \<open>select_node\<close>: each \<open>for\<close> loop writes the flag of one
  object per iteration.\<close>

definition select_arrow :: "ref option \<Rightarrow> canvas \<Rightarrow> canvas" where
  "select_arrow arrow c =
     (let c1 = c\<lparr>arrow_obj :=
                   fold (\<lambda>a obj. obj(a := (obj a)\<lparr>a_selected := (Some a = arrow)\<rparr>))
                     (arrows c) (arrow_obj c),
                 selected_arrow := arrow\<rparr>
      in if arrow \<noteq> None
         then c1\<lparr>node_obj :=
                   fold (\<lambda>n obj. obj(n := (obj n)\<lparr>n_selected := False\<rparr>))
                     (nodes c1) (node_obj c1),
                 selected_node := None\<rparr>
         else c1)"

definition select_node :: "ref option \<Rightarrow> canvas \<Rightarrow> canvas" where
  "select_node node c =
     select_arrow None
       (c\<lparr>node_obj :=
            fold (\<lambda>n obj. obj(n := (obj n)\<lparr>n_selected := (Some n = node)\<rparr>))
              (nodes c) (node_obj c),
          selected_node := node\<rparr>)"

text \<open>Python's \<open>str\<close> of a non-negative integer, for the generated default texts.\<close>

function str_nat :: "nat \<Rightarrow> string" where
  "str_nat k =
     (if k < 10 then [''0123456789'' ! k]
      else str_nat (k div 10) @ [''0123456789'' ! (k mod 10)])"
  by pat_completeness auto
termination
  by (relation "measure id") auto

declare str_nat.simps [simp del]

definition add_node :: "font_metrics \<Rightarrow> real \<Rightarrow> real \<Rightarrow> string option \<Rightarrow> canvas \<Rightarrow> canvas" where
  "add_node fm px py text_arg c =
     (let t = (case text_arg of
                 None \<Rightarrow> ''Node '' @ str_nat
                   (length (filter (\<lambda>n. n_class (node_obj c n) \<noteq> TextNode) (nodes c)) + 1)
               | Some t \<Rightarrow> t)
      in append_node (new_node fm Node px py t) c)"

definition add_text_node :: "font_metrics \<Rightarrow> real \<Rightarrow> real \<Rightarrow> string option \<Rightarrow> canvas \<Rightarrow> canvas" where
  "add_text_node fm px py text_arg c =
     (let t = (case text_arg of
                 None \<Rightarrow> ''Text '' @ str_nat
                   (length (filter (\<lambda>n. n_class (node_obj c n) = TextNode) (nodes c)) + 1)
               | Some t \<Rightarrow> t)
      in append_node (new_node fm TextNode px py t) c)"

text \<open>
  The two delete operations. \<open>list.remove\<close> raises \<open>ValueError\<close> when the object is
  not in the list; the arrows have been filtered by then. The first component of the
  result is the exception raised, if any, the second the canvas as the call leaves it.
\<close>

definition delete_selected_node :: "canvas \<Rightarrow> error option \<times> canvas" where
  "delete_selected_node c =
     (case selected_node c of
        None \<Rightarrow> (None, c)
      | Some s \<Rightarrow>
          (let c1 = c\<lparr>arrows :=
                        filter (\<lambda>a. start_node (arrow_obj c a) \<noteq> s \<and> end_node (arrow_obj c a) \<noteq> s)
                          (arrows c)\<rparr>
           in if s \<in> set (nodes c1)
              then (None, c1\<lparr>nodes := remove1 s (nodes c1), selected_node := None\<rparr>)
              else (Some ValueError, c1)))"

definition delete_selected_arrow :: "canvas \<Rightarrow> error option \<times> canvas" where
  "delete_selected_arrow c =
     (case selected_arrow c of
        None \<Rightarrow> (None, c)
      | Some a \<Rightarrow>
          if a \<in> set (arrows c)
          then (None, c\<lparr>arrows := remove1 a (arrows c), selected_arrow := None\<rparr>)
          else (Some ValueError, c))"


section \<open>The interaction controller\<close>

datatype button = LeftButton | RightButton | OtherButton

text \<open>\<open>event.position() / self._zoom\<close>.\<close>

definition scaled :: "point \<Rightarrow> real \<Rightarrow> point" where
  "scaled p z = (fst p / z, snd p / z)"

text \<open>
  \<open>mousePressEvent\<close>. \<open>find\<close> over the reversed list is the \<open>for\<close> loop that
  returns at the first hit. A pending source is any node object (Python objects are
  truthy), whether or not it is still in \<open>nodes\<close>.
\<close>

definition mousePressEvent :: "button \<Rightarrow> point \<Rightarrow> canvas \<Rightarrow> canvas" where
  "mousePressEvent btn position c =
     (let pos = scaled position (zoom c) in
      case btn of
        LeftButton \<Rightarrow>
          (case find (\<lambda>a. arrow_contains (node_obj c) (arrow_obj c a) pos 8) (rev (arrows c)) of
             Some a \<Rightarrow> hide_editor (select_arrow (Some a) c)
           | None \<Rightarrow>
               (case find (\<lambda>n. contains (node_obj c n) pos) (rev (nodes c)) of
                  Some n \<Rightarrow>
                    hide_editor
                      ((select_node (Some n) c)
                         \<lparr>dragging_node := Some n,
                          drag_offset := (fst pos - n_x (node_obj c n), snd pos - n_y (node_obj c n))\<rparr>)
                | None \<Rightarrow>
                    hide_editor
                      ((select_arrow None (select_node None c))\<lparr>dragging_node := None\<rparr>)))
      | RightButton \<Rightarrow>
          (case find (\<lambda>n. contains (node_obj c n) pos) (rev (nodes c)) of
             Some n \<Rightarrow>
               (case arrow_source_node c of
                  Some src \<Rightarrow>
                    if src \<noteq> n
                    then hide_editor ((append_arrow src n c)\<lparr>arrow_source_node := None\<rparr>)
                    else c\<lparr>arrow_source_node := Some n\<rparr>
                | None \<Rightarrow> c\<lparr>arrow_source_node := Some n\<rparr>)
           | None \<Rightarrow>
               (if arrow_source_node c \<noteq> None then c\<lparr>arrow_source_node := None\<rparr> else c))
      | OtherButton \<Rightarrow> c)"

definition mouseMoveEvent :: "point \<Rightarrow> canvas \<Rightarrow> canvas" where
  "mouseMoveEvent position c =
     (case dragging_node c of
        Some d \<Rightarrow>
          (let pos = (fst (scaled position (zoom c)) - fst (drag_offset c),
                      snd (scaled position (zoom c)) - snd (drag_offset c))
           in hide_editor
                (c\<lparr>node_obj := (node_obj c)(d := (node_obj c d)\<lparr>n_x := fst pos, n_y := snd pos\<rparr>)\<rparr>))
      | None \<Rightarrow> c)"

definition mouseReleaseEvent :: "canvas \<Rightarrow> canvas" where
  "mouseReleaseEvent c = c\<lparr>dragging_node := None\<rparr>"

definition mouseDoubleClickEvent :: "font_metrics \<Rightarrow> point \<Rightarrow> canvas \<Rightarrow> canvas" where
  "mouseDoubleClickEvent fm position c =
     (let pos = scaled position (zoom c) in
      case find (\<lambda>n. contains (node_obj c n) pos) (rev (nodes c)) of
        Some n \<Rightarrow> c\<lparr>editing_node := Some n\<rparr>
      | None \<Rightarrow> add_node fm 20 20 None c)"

text \<open>\<open>finish_editing\<close>; the argument is the text the line edit holds when its
  \<open>editingFinished\<close> signal fires.\<close>

definition finish_editing :: "font_metrics \<Rightarrow> string \<Rightarrow> canvas \<Rightarrow> canvas" where
  "finish_editing fm t c =
     (case editing_node c of
        Some n \<Rightarrow> c\<lparr>node_obj := (node_obj c)(n := set_text fm t (node_obj c n)),
                     editing_node := None\<rparr>
      | None \<Rightarrow> c)"

definition zoom_in :: "canvas \<Rightarrow> canvas" where
  "zoom_in c = hide_editor (c\<lparr>zoom := zoom c * 1.15\<rparr>)"

definition zoom_out :: "canvas \<Rightarrow> canvas" where
  "zoom_out c = hide_editor (c\<lparr>zoom := zoom c / 1.15\<rparr>)"

text \<open>\<open>MainWindow.delete_selected\<close>, the slot of the Delete button.\<close>

definition delete_selected :: "canvas \<Rightarrow> error option \<times> canvas" where
  "delete_selected c =
     (if selected_node c \<noteq> None then delete_selected_node c
      else if selected_arrow c \<noteq> None then delete_selected_arrow c
      else (None, c))"


section \<open>Serialization\<close>

text \<open>
  The JSON document, as \<open>json.load\<close> returns it and \<open>json.dump\<close> takes it: a list of
  node dictionaries and a list of arrow dictionaries. The model covers documents whose
  keys are all present and whose values have the expected JSON types; the indices of an
  arrow are arbitrary integers.
\<close>

record node_dict =
  d_type :: string
  d_x :: real
  d_y :: real
  d_text :: string

record arrow_dict =
  d_start :: int
  d_end :: int

record diagram =
  d_nodes :: "node_dict list"
  d_arrows :: "arrow_dict list"

text \<open>\<open>Node.to_dict\<close> and \<open>TextNode.to_dict\<close>, dispatched on the class.\<close>

definition to_dict :: "node \<Rightarrow> node_dict" where
  "to_dict n =
     (case n_class n of
        Node \<Rightarrow> \<lparr>d_type = ''node'', d_x = n_x n, d_y = n_y n, d_text = n_text n\<rparr>
      | TextNode \<Rightarrow> \<lparr>d_type = ''textnode'', d_x = n_x n, d_y = n_y n, d_text = n_text n\<rparr>)"

text \<open>\<open>{node: idx for idx, node in enumerate(self.nodes)}\<close>: a later entry for the same
  key replaces an earlier one.\<close>

definition node_indices :: "ref list \<Rightarrow> (ref \<rightharpoonup> nat)" where
  "node_indices ns = fold (\<lambda>(idx, n) m. m(n \<mapsto> idx)) (enumerate 0 ns) Map.empty"

text \<open>\<open>Arrow.to_dict\<close>: a dictionary lookup of a missing key raises \<open>KeyError\<close>.\<close>

definition arrow_to_dict :: "(ref \<rightharpoonup> nat) \<Rightarrow> arrow \<Rightarrow> error + arrow_dict" where
  "arrow_to_dict idx a =
     (case idx (start_node a) of
        None \<Rightarrow> Inl KeyError
      | Some s \<Rightarrow>
          (case idx (end_node a) of
             None \<Rightarrow> Inl KeyError
           | Some e \<Rightarrow> Inr \<lparr>d_start = int s, d_end = int e\<rparr>))"

fun arrows_to_dicts :: "(ref \<rightharpoonup> nat) \<Rightarrow> arrow list \<Rightarrow> error + arrow_dict list" where
  "arrows_to_dicts idx [] = Inr []"
| "arrows_to_dicts idx (a # as) =
     (case arrow_to_dict idx a of
        Inl e \<Rightarrow> Inl e
      | Inr d \<Rightarrow>
          (case arrows_to_dicts idx as of
             Inl e \<Rightarrow> Inl e
           | Inr ds \<Rightarrow> Inr (d # ds)))"

text \<open>\<open>save_diagram\<close> returns the data it hands to \<open>json.dump\<close>; the canvas is not
  changed.\<close>

definition save_diagram :: "canvas \<Rightarrow> error + diagram" where
  "save_diagram c =
     (case arrows_to_dicts (node_indices (nodes c)) (map (arrow_obj c) (arrows c)) of
        Inl e \<Rightarrow> Inl e
      | Inr ds \<Rightarrow> Inr \<lparr>d_nodes = map (\<lambda>n. to_dict (node_obj c n)) (nodes c), d_arrows = ds\<rparr>)"

text \<open>Python's list indexing: a negative index counts from the end, anything outside
  the list raises \<open>IndexError\<close>.\<close>

definition py_index :: "'a list \<Rightarrow> int \<Rightarrow> error + 'a" where
  "py_index xs i =
     (let n = int (length xs);
          j = (if i < 0 then i + n else i)
      in if 0 \<le> j \<and> j < n then Inr (xs ! nat j) else Inl IndexError)"

text \<open>The two loops of \<open>load_diagram\<close>. An entry of unknown type is skipped.\<close>

fun load_nodes :: "font_metrics \<Rightarrow> node_dict list \<Rightarrow> canvas \<Rightarrow> canvas" where
  "load_nodes fm [] c = c"
| "load_nodes fm (nd # nds) c =
     (if d_type nd = ''node''
      then load_nodes fm nds (append_node (new_node fm Node (d_x nd) (d_y nd) (d_text nd)) c)
      else if d_type nd = ''textnode''
      then load_nodes fm nds (append_node (new_node fm TextNode (d_x nd) (d_y nd) (d_text nd)) c)
      else load_nodes fm nds c)"

fun load_arrows :: "arrow_dict list \<Rightarrow> canvas \<Rightarrow> error option \<times> canvas" where
  "load_arrows [] c = (None, c)"
| "load_arrows (ad # ads) c =
     (case py_index (nodes c) (d_start ad) of
        Inl e \<Rightarrow> (Some e, c)
      | Inr start \<Rightarrow>
          (case py_index (nodes c) (d_end ad) of
             Inl e \<Rightarrow> (Some e, c)
           | Inr end_n \<Rightarrow> load_arrows ads (append_arrow start end_n c)))"

text \<open>\<open>load_diagram\<close>, from the parsed data on. The two lists are cleared before
  anything is read; the three resets at the end are not reached when an index raises.\<close>

definition load_diagram :: "font_metrics \<Rightarrow> diagram \<Rightarrow> canvas \<Rightarrow> error option \<times> canvas" where
  "load_diagram fm data c =
     (let c1 = c\<lparr>nodes := [], arrows := []\<rparr>;
          c2 = load_nodes fm (d_nodes data) c1
      in case load_arrows (d_arrows data) c2 of
           (Some e, c3) \<Rightarrow> (Some e, c3)
         | (None, c3) \<Rightarrow>
             (None, c3\<lparr>selected_node := None, selected_arrow := None,
                       arrow_source_node := None\<rparr>))"

text \<open>\<open>export_node_textnode_node_tuples\<close>: the \<open>outgoing\<close> dictionary, then the
  lines in the order they are written.\<close>

definition outgoing :: "canvas \<Rightarrow> (ref \<rightharpoonup> ref list)" where
  "outgoing c =
     fold (\<lambda>a m. m(start_node (arrow_obj c a) \<mapsto>
              (case m (start_node (arrow_obj c a)) of None \<Rightarrow> [] | Some l \<Rightarrow> l)
                @ [end_node (arrow_obj c a)]))
       (arrows c) Map.empty"

definition get_list :: "(ref \<rightharpoonup> ref list) \<Rightarrow> ref \<Rightarrow> ref list" where
  "get_list m k = (case m k of None \<Rightarrow> [] | Some l \<Rightarrow> l)"

definition triple_line :: "node \<Rightarrow> node \<Rightarrow> node \<Rightarrow> string" where
  "triple_line a m b = n_text a @ '', '' @ n_text m @ '', '' @ n_text b @ [CHR 0x0A]"

definition export_node_textnode_node_tuples :: "canvas \<Rightarrow> string list" where
  "export_node_textnode_node_tuples c =
     concat (map (\<lambda>node.
       if n_class (node_obj c node) = Node
       then concat (map (\<lambda>mid.
              if n_class (node_obj c mid) = TextNode
              then concat (map (\<lambda>end_n.
                     if n_class (node_obj c end_n) = Node
                     then [triple_line (node_obj c node) (node_obj c mid) (node_obj c end_n)]
                     else [])
                   (get_list (outgoing c) mid))
              else [])
            (get_list (outgoing c) node))
       else [])
     (nodes c))"

section \<open>Events\<close>

text \<open>
  One event per handler the window can call: the four mouse events, the line edit's
  \<open>editingFinished\<close> signal and the toolbar buttons (the buttons call \<open>add_node\<close> and
  \<open>add_text_node\<close> with their defaults; a file dialog that is cancelled calls nothing).
  The SVG export only renders and puts the zoom back, so it has no event. \<open>step\<close> gives
  the exception the handler raises, if any, and the canvas afterwards; \<open>run\<close> handles a
  list of events and stops at the first exception.
\<close>

datatype event =
    MousePress button point
  | MouseMove point
  | MouseRelease
  | MouseDoubleClick point
  | EditingFinished string
  | ZoomIn
  | ZoomOut
  | AddNode
  | AddTextNode
  | Delete
  | Save
  | Load diagram
  | ExportTuples

fun step :: "font_metrics \<Rightarrow> event \<Rightarrow> canvas \<Rightarrow> error option \<times> canvas" where
  "step fm (MousePress b p) c = (None, mousePressEvent b p c)"
| "step fm (MouseMove p) c = (None, mouseMoveEvent p c)"
| "step fm MouseRelease c = (None, mouseReleaseEvent c)"
| "step fm (MouseDoubleClick p) c = (None, mouseDoubleClickEvent fm p c)"
| "step fm (EditingFinished t) c = (None, finish_editing fm t c)"
| "step fm ZoomIn c = (None, zoom_in c)"
| "step fm ZoomOut c = (None, zoom_out c)"
| "step fm AddNode c = (None, add_node fm 20 20 None c)"
| "step fm AddTextNode c = (None, add_text_node fm 20 20 None c)"
| "step fm Delete c = delete_selected c"
| "step fm Save c = (case save_diagram c of Inl e \<Rightarrow> (Some e, c) | Inr d \<Rightarrow> (None, c))"
| "step fm (Load d) c = load_diagram fm d c"
| "step fm ExportTuples c = (None, c)"

fun run :: "font_metrics \<Rightarrow> event list \<Rightarrow> canvas \<Rightarrow> error option \<times> canvas" where
  "run fm [] c = (None, c)"
| "run fm (e # es) c =
     (if fst (step fm e c) = None then run fm es (snd (step fm e c)) else step fm e c)"

text \<open>The canvases the editor can be in: those some list of events leads to from the
  empty canvas, every handler having returned normally.\<close>

inductive reachable :: "font_metrics \<Rightarrow> canvas \<Rightarrow> bool" for fm where
  start: "reachable fm init_canvas"
| after: "reachable fm c \<Longrightarrow> step fm e c = (None, c') \<Longrightarrow> reachable fm c'"


section \<open>Properties: the notions the theorems use\<close>

text \<open>How many entities of the two collections carry \<open>selected == True\<close>, each object
  counted once.\<close>

definition selected_count :: "canvas \<Rightarrow> nat" where
  "selected_count c =
     length (filter (\<lambda>n. n_selected (node_obj c n)) (remdups (nodes c))) +
     length (filter (\<lambda>a. a_selected (arrow_obj c a)) (remdups (arrows c)))"

text \<open>A node whose size is the one its current text gives.\<close>

definition sized :: "font_metrics \<Rightarrow> node \<Rightarrow> bool" where
  "sized fm n \<longleftrightarrow>
     n_w n = horizontalAdvance fm (n_text n) + 18 \<and> n_h n = height fm + 12"

text \<open>What every handler keeps true of the store and the two lists: no object is listed
  twice, every listed object has been constructed, and every constructed node is sized.\<close>

definition well_formed :: "font_metrics \<Rightarrow> canvas \<Rightarrow> bool" where
  "well_formed fm c \<longleftrightarrow>
     distinct (nodes c) \<and> list_all (\<lambda>n. n < next_node c) (nodes c) \<and>
     distinct (arrows c) \<and> list_all (\<lambda>a. a < next_arrow c) (arrows c) \<and>
     list_all (\<lambda>n. sized fm (node_obj c n)) [0..<next_node c]"


text \<open>The node a button press at window position \<open>p\<close> hits: the topmost node whose
  rectangle holds the position in document space.\<close>

definition node_at :: "canvas \<Rightarrow> point \<Rightarrow> ref option" where
  "node_at c p = find (\<lambda>n. contains (node_obj c n) (scaled p (zoom c))) (rev (nodes c))"

text \<open>The linking gesture: a right press on the source, then a right press on the
  target.\<close>

definition link_gesture :: "point \<Rightarrow> point \<Rightarrow> canvas \<Rightarrow> canvas" where
  "link_gesture p1 p2 c = mousePressEvent RightButton p2 (mousePressEvent RightButton p1 c)"

definition arrows_between :: "ref \<Rightarrow> ref \<Rightarrow> canvas \<Rightarrow> nat" where
  "arrows_between a b c =
     length (filter (\<lambda>r. start_node (arrow_obj c r) = a \<and> end_node (arrow_obj c r) = b) (arrows c))"

text \<open>A font for the examples: every character is 8 wide, a line is 16 high.\<close>

definition example_font :: font_metrics where
  "example_font = \<lparr>horizontalAdvance = (\<lambda>s. 8 * int (length s)), height = 16\<rparr>"

text \<open>An example session: a concept node, a text node and a second concept node are
  added and dragged apart to \<open>(20, 20)\<close>, \<open>(200, 20)\<close> and \<open>(400, 20)\<close>; two linking
  gestures then join them into one proposition.\<close>

definition example_events :: "event list" where
  "example_events =
     [AddNode, AddTextNode,
      MousePress LeftButton (25, 25), MouseMove (205, 25), MouseRelease,
      AddNode,
      MousePress LeftButton (25, 25), MouseMove (405, 25), MouseRelease,
      MousePress RightButton (25, 25), MousePress RightButton (205, 25),
      MousePress RightButton (205, 25), MousePress RightButton (405, 25)]"

definition example_canvas :: canvas where
  "example_canvas = snd (run example_font example_events init_canvas)"


text \<open>The triple export as the specification words it: one line for every concept node
  \<open>A\<close> of the node list, every arrow from \<open>A\<close> to a text node \<open>M\<close> and every arrow
  from \<open>M\<close> to a concept node \<open>B\<close>.\<close>

definition proposition_lines :: "canvas \<Rightarrow> string list" where
  "proposition_lines c =
     [triple_line (node_obj c A) (node_obj c (end_node (arrow_obj c a1)))
        (node_obj c (end_node (arrow_obj c a2))).
      A \<leftarrow> nodes c, n_class (node_obj c A) = Node,
      a1 \<leftarrow> arrows c, start_node (arrow_obj c a1) = A,
      n_class (node_obj c (end_node (arrow_obj c a1))) = TextNode,
      a2 \<leftarrow> arrows c, start_node (arrow_obj c a2) = end_node (arrow_obj c a1),
      n_class (node_obj c (end_node (arrow_obj c a2))) = Node]"

text \<open>The documents \<open>save_diagram\<close> produces: every node entry is of one of the two
  known types and every arrow index is a position of the node array.\<close>

definition known_type :: "node_dict \<Rightarrow> bool" where
  "known_type nd \<longleftrightarrow> d_type nd = ''node'' \<or> d_type nd = ''textnode''"

definition index_ok :: "nat \<Rightarrow> arrow_dict \<Rightarrow> bool" where
  "index_ok k ad \<longleftrightarrow> 0 \<le> d_start ad \<and> d_start ad < int k \<and> 0 \<le> d_end ad \<and> d_end ad < int k"

definition saved_shape :: "diagram \<Rightarrow> bool" where
  "saved_shape d \<longleftrightarrow>
     list_all known_type (d_nodes d) \<and> list_all (index_ok (length (d_nodes d))) (d_arrows d)"

text \<open>The document the example session saves.\<close>

definition example_diagram :: diagram where
  "example_diagram =
     \<lparr>d_nodes =
        [\<lparr>d_type = ''node'', d_x = 20, d_y = 20, d_text = ''Node 1''\<rparr>,
         \<lparr>d_type = ''textnode'', d_x = 200, d_y = 20, d_text = ''Text 1''\<rparr>,
         \<lparr>d_type = ''node'', d_x = 400, d_y = 20, d_text = ''Node 2''\<rparr>],
      d_arrows = [\<lparr>d_start = 0, d_end = 1\<rparr>, \<lparr>d_start = 1, d_end = 2\<rparr>]\<rparr>"

text \<open>The indices Python accepts for a list of length \<open>k\<close>, and the arrow entries both
  of whose indices it accepts.\<close>

definition python_range :: "nat \<Rightarrow> int \<Rightarrow> bool" where
  "python_range k i \<longleftrightarrow> - int k \<le> i \<and> i < int k"

definition resolves :: "nat \<Rightarrow> arrow_dict \<Rightarrow> bool" where
  "resolves k ad \<longleftrightarrow> python_range k (d_start ad) \<and> python_range k (d_end ad)"

text \<open>The document of the out-of-range scenario: two nodes, one arrow from index 5.\<close>

definition out_of_range_diagram :: diagram where
  "out_of_range_diagram =
     \<lparr>d_nodes =
        [\<lparr>d_type = ''node'', d_x = 0, d_y = 0, d_text = ''A''\<rparr>,
         \<lparr>d_type = ''node'', d_x = 100, d_y = 0, d_text = ''B''\<rparr>],
      d_arrows = [\<lparr>d_start = 5, d_end = 0\<rparr>]\<rparr>"

text \<open>A session in which the pending source of a link is deleted before the link is
  completed: a node is added, right-pressed (it becomes the pending source), selected by
  a left press and deleted; a second node is added and right-pressed.\<close>

definition dangling_events :: "event list" where
  "dangling_events =
     [AddNode, MousePress RightButton (25, 25),
      MousePress LeftButton (25, 25), MouseRelease, Delete,
      AddNode, MousePress RightButton (25, 25)]"

section \<open>Facts about the selection loops\<close>

lemma fold_n_selected:
  "fold (\<lambda>n obj. obj(n := (obj n)\<lparr>n_selected := f n\<rparr>)) ns obj k =
     (if k \<in> set ns then (obj k)\<lparr>n_selected := f k\<rparr> else obj k)"
  by (induction ns arbitrary: obj) auto

lemma fold_a_selected:
  "fold (\<lambda>a obj. obj(a := (obj a)\<lparr>a_selected := f a\<rparr>)) as obj k =
     (if k \<in> set as then (obj k)\<lparr>a_selected := f k\<rparr> else obj k)"
  by (induction as arbitrary: obj) auto

lemma select_arrow_frame [simp]:
  "nodes (select_arrow r c) = nodes c"
  "arrows (select_arrow r c) = arrows c"
  "next_node (select_arrow r c) = next_node c"
  "next_arrow (select_arrow r c) = next_arrow c"
  "zoom (select_arrow r c) = zoom c"
  "arrow_source_node (select_arrow r c) = arrow_source_node c"
  "selected_arrow (select_arrow r c) = r"
  by (simp_all add: select_arrow_def Let_def)

lemma select_arrow_node_obj:
  "node_obj (select_arrow r c) k =
     (if r \<noteq> None \<and> k \<in> set (nodes c) then (node_obj c k)\<lparr>n_selected := False\<rparr> else node_obj c k)"
  by (simp add: select_arrow_def Let_def fold_n_selected)

lemma select_arrow_arrow_obj:
  "arrow_obj (select_arrow r c) a =
     (if a \<in> set (arrows c) then (arrow_obj c a)\<lparr>a_selected := (Some a = r)\<rparr> else arrow_obj c a)"
  by (simp add: select_arrow_def Let_def fold_a_selected)

lemma select_node_frame [simp]:
  "nodes (select_node r c) = nodes c"
  "arrows (select_node r c) = arrows c"
  "next_node (select_node r c) = next_node c"
  "next_arrow (select_node r c) = next_arrow c"
  "zoom (select_node r c) = zoom c"
  "arrow_source_node (select_node r c) = arrow_source_node c"
  "selected_node (select_node r c) = r"
  "selected_arrow (select_node r c) = None"
  by (simp_all add: select_node_def select_arrow_def Let_def)

lemma select_node_node_obj:
  "node_obj (select_node r c) k =
     (if k \<in> set (nodes c) then (node_obj c k)\<lparr>n_selected := (Some k = r)\<rparr> else node_obj c k)"
  by (simp add: select_node_def select_arrow_node_obj fold_n_selected)

lemma select_node_arrow_obj:
  "arrow_obj (select_node r c) a =
     (if a \<in> set (arrows c) then (arrow_obj c a)\<lparr>a_selected := False\<rparr> else arrow_obj c a)"
  by (simp add: select_node_def select_arrow_arrow_obj)


lemma filter_eq_at_most_one:
  "distinct xs \<Longrightarrow> length (filter (\<lambda>x. Some x = r) xs) \<le> 1"
proof (induction xs)
  case Nil
  show ?case by simp
next
  case (Cons x xs)
  show ?case
  proof (cases "Some x = r")
    case True
    with Cons.prems have "filter (\<lambda>y. Some y = r) xs = []"
      by (auto simp: filter_empty_conv)
    with True show ?thesis by simp
  next
    case False
    with Cons show ?thesis by simp
  qed
qed

lemma count_nodes_select_node:
  "length (filter (\<lambda>n. n_selected (node_obj (select_node r c) n)) (remdups (nodes c))) \<le> 1"
proof -
  have "filter (\<lambda>n. n_selected (node_obj (select_node r c) n)) (remdups (nodes c)) =
        filter (\<lambda>n. Some n = r) (remdups (nodes c))"
    by (rule filter_cong) (simp_all add: select_node_node_obj)
  then show ?thesis using filter_eq_at_most_one [of "remdups (nodes c)" r] by simp
qed

lemma count_arrows_select_node:
  "filter (\<lambda>a. a_selected (arrow_obj (select_node r c) a)) (remdups (arrows c)) = []"
  by (simp add: filter_empty_conv select_node_arrow_obj)

lemma count_arrows_select_arrow:
  "length (filter (\<lambda>a. a_selected (arrow_obj (select_arrow r c) a)) (remdups (arrows c))) \<le> 1"
proof -
  have "filter (\<lambda>a. a_selected (arrow_obj (select_arrow r c) a)) (remdups (arrows c)) =
        filter (\<lambda>a. Some a = r) (remdups (arrows c))"
    by (rule filter_cong) (simp_all add: select_arrow_arrow_obj)
  then show ?thesis using filter_eq_at_most_one [of "remdups (arrows c)" r] by simp
qed

lemma count_nodes_select_arrow:
  "filter (\<lambda>n. n_selected (node_obj (select_arrow (Some a) c) n)) (remdups (nodes c)) = []"
  by (simp add: filter_empty_conv select_arrow_node_obj)

lemma selected_count_select_node: "selected_count (select_node r c) \<le> 1"
  using count_nodes_select_node [of r c]
  by (simp add: selected_count_def count_arrows_select_node)

lemma selected_count_select_arrow_Some: "selected_count (select_arrow (Some a) c) \<le> 1"
  using count_arrows_select_arrow [of "Some a" c]
  by (simp add: selected_count_def count_nodes_select_arrow)

lemma selected_count_clear: "selected_count (select_arrow None (select_node None c)) = 0"
  by (simp add: selected_count_def filter_empty_conv select_arrow_node_obj select_arrow_arrow_obj
      select_node_node_obj select_node_arrow_obj)

lemma selected_count_hide_editor [simp]: "selected_count (hide_editor c) = selected_count c"
  by (simp add: selected_count_def hide_editor_def)

lemma selected_count_dragging [simp]:
  "selected_count (c\<lparr>dragging_node := d, drag_offset := off\<rparr>) = selected_count c"
  "selected_count (c\<lparr>dragging_node := d\<rparr>) = selected_count c"
  by (simp_all add: selected_count_def)

lemma selected_count_left_press:
  "selected_count (mousePressEvent LeftButton p c) \<le> 1"
  using selected_count_select_node [of _ c] selected_count_select_arrow_Some [of _ c]
  by (simp add: mousePressEvent_def Let_def selected_count_clear split: option.splits)

section \<open>Every reachable canvas is well formed\<close>

lemma sized_set_text [simp]: "sized fm (set_text fm t n)"
  by (simp add: sized_def set_text_def Node_set_text_def TextNode_set_text_def Let_def
      split: node_class.splits)

lemma sized_new_node [simp]: "sized fm (new_node fm k px py t)"
  by (simp add: new_node_def)

lemma sized_frame [simp]:
  "sized fm (n\<lparr>n_selected := b\<rparr>) = sized fm n"
  "sized fm (n\<lparr>n_x := px, n_y := py\<rparr>) = sized fm n"
  by (simp_all add: sized_def)

lemma well_formed_cong:
  assumes "nodes c' = nodes c" and "arrows c' = arrows c"
    and "next_node c' = next_node c" and "next_arrow c' = next_arrow c"
    and "\<And>n. sized fm (node_obj c' n) = sized fm (node_obj c n)"
  shows "well_formed fm c' = well_formed fm c"
  using assms by (simp add: well_formed_def list_all_iff)

lemma well_formed_append_node:
  assumes "well_formed fm c" and "sized fm n"
  shows "well_formed fm (append_node n c)"
  using assms by (auto simp: well_formed_def append_node_def list_all_iff less_Suc_eq)

lemma well_formed_append_arrow:
  assumes "well_formed fm c"
  shows "well_formed fm (append_arrow s e c)"
  using assms by (auto simp: well_formed_def append_arrow_def list_all_iff less_Suc_eq)

lemma well_formed_select_arrow [simp]: "well_formed fm (select_arrow r c) = well_formed fm c"
  by (rule well_formed_cong) (simp_all add: select_arrow_node_obj)

lemma well_formed_select_node [simp]: "well_formed fm (select_node r c) = well_formed fm c"
  by (rule well_formed_cong) (simp_all add: select_node_node_obj)

lemma well_formed_hide_editor [simp]: "well_formed fm (hide_editor c) = well_formed fm c"
  by (rule well_formed_cong) (simp_all add: hide_editor_def)

lemma well_formed_fields [simp]:
  "well_formed fm (c\<lparr>dragging_node := d\<rparr>) = well_formed fm c"
  "well_formed fm (c\<lparr>drag_offset := off\<rparr>) = well_formed fm c"
  "well_formed fm (c\<lparr>arrow_source_node := src\<rparr>) = well_formed fm c"
  "well_formed fm (c\<lparr>selected_node := sn\<rparr>) = well_formed fm c"
  "well_formed fm (c\<lparr>selected_arrow := sa\<rparr>) = well_formed fm c"
  "well_formed fm (c\<lparr>editing_node := en\<rparr>) = well_formed fm c"
  "well_formed fm (c\<lparr>zoom := z\<rparr>) = well_formed fm c"
  by (simp_all add: well_formed_def)

lemma well_formed_mousePressEvent:
  "well_formed fm c \<Longrightarrow> well_formed fm (mousePressEvent b p c)"
  by (cases b)
     (simp_all add: mousePressEvent_def Let_def well_formed_append_arrow split: option.splits)

lemma well_formed_mouseMoveEvent:
  "well_formed fm c \<Longrightarrow> well_formed fm (mouseMoveEvent p c)"
  by (auto simp: mouseMoveEvent_def Let_def well_formed_def list_all_iff hide_editor_def
      split: option.splits)

lemma well_formed_add_node:
  "well_formed fm c \<Longrightarrow> well_formed fm (add_node fm px py t c)"
  by (simp add: add_node_def Let_def well_formed_append_node)

lemma well_formed_add_text_node:
  "well_formed fm c \<Longrightarrow> well_formed fm (add_text_node fm px py t c)"
  by (simp add: add_text_node_def Let_def well_formed_append_node)

lemma well_formed_mouseDoubleClickEvent:
  "well_formed fm c \<Longrightarrow> well_formed fm (mouseDoubleClickEvent fm p c)"
  by (simp add: mouseDoubleClickEvent_def Let_def well_formed_add_node split: option.splits)

lemma well_formed_finish_editing:
  "well_formed fm c \<Longrightarrow> well_formed fm (finish_editing fm t c)"
  by (auto simp: finish_editing_def well_formed_def list_all_iff split: option.splits)

lemma well_formed_delete_selected_node:
  "well_formed fm c \<Longrightarrow> well_formed fm (snd (delete_selected_node c))"
  by (auto simp: delete_selected_node_def Let_def well_formed_def list_all_iff
      split: option.splits dest: notin_set_remove1)

lemma well_formed_delete_selected_arrow:
  "well_formed fm c \<Longrightarrow> well_formed fm (snd (delete_selected_arrow c))"
  by (auto simp: delete_selected_arrow_def well_formed_def list_all_iff
      split: option.splits dest: notin_set_remove1)

lemma well_formed_delete_selected:
  "well_formed fm c \<Longrightarrow> well_formed fm (snd (delete_selected c))"
  by (simp add: delete_selected_def well_formed_delete_selected_node
      well_formed_delete_selected_arrow)

lemma well_formed_load_nodes:
  "well_formed fm c \<Longrightarrow> well_formed fm (load_nodes fm nds c)"
  by (induction nds arbitrary: c) (simp_all add: well_formed_append_node)

lemma well_formed_load_arrows:
  "well_formed fm c \<Longrightarrow> well_formed fm (snd (load_arrows ads c))"
  by (induction ads arbitrary: c) (simp_all add: well_formed_append_arrow split: sum.splits)

lemma well_formed_cleared:
  "well_formed fm c \<Longrightarrow> well_formed fm (c\<lparr>nodes := [], arrows := []\<rparr>)"
  by (simp add: well_formed_def)

lemma well_formed_load_diagram:
  assumes "well_formed fm c"
  shows "well_formed fm (snd (load_diagram fm d c))"
proof -
  let ?c2 = "load_nodes fm (d_nodes d) (c\<lparr>nodes := [], arrows := []\<rparr>)"
  from assms have "well_formed fm ?c2"
    by (intro well_formed_load_nodes well_formed_cleared)
  then have "well_formed fm (snd (load_arrows (d_arrows d) ?c2))"
    by (rule well_formed_load_arrows)
  then show ?thesis
    by (cases "load_arrows (d_arrows d) ?c2")
       (auto simp: load_diagram_def Let_def split: option.splits)
qed

lemma well_formed_step:
  "well_formed fm c \<Longrightarrow> well_formed fm (snd (step fm e c))"
  by (cases e)
     (simp_all add: well_formed_mousePressEvent well_formed_mouseMoveEvent mouseReleaseEvent_def
        well_formed_mouseDoubleClickEvent well_formed_finish_editing zoom_in_def zoom_out_def
        well_formed_add_node well_formed_add_text_node well_formed_delete_selected
        well_formed_load_diagram split: sum.splits)

lemma well_formed_init: "well_formed fm init_canvas"
  by (simp add: well_formed_def init_canvas_def)

lemma reachable_well_formed: "reachable fm c \<Longrightarrow> well_formed fm c"
proof (induction rule: reachable.induct)
  case start
  show ?case by (rule well_formed_init)
next
  case (after c e c')
  from after.IH have "well_formed fm (snd (step fm e c))"
    by (rule well_formed_step)
  with after.hyps(2) show ?case by simp
qed

lemma run_reachable:
  "reachable fm c \<Longrightarrow> run fm es c = (None, c') \<Longrightarrow> reachable fm c'"
proof (induction es arbitrary: c)
  case Nil
  then show ?case by simp
next
  case (Cons e es)
  show ?case
  proof (cases "fst (step fm e c) = None")
    case True
    then have "step fm e c = (None, snd (step fm e c))"
      by (simp add: prod_eq_iff)
    with Cons.prems(1) have "reachable fm (snd (step fm e c))"
      by (rule reachable.after)
    moreover from True Cons.prems(2) have "run fm es (snd (step fm e c)) = (None, c')"
      by simp
    ultimately show ?thesis by (rule Cons.IH)
  next
    case False
    with Cons.prems(2) show ?thesis by (simp add: prod_eq_iff)
  qed
qed

lemmas handler_defs =
  mousePressEvent_def mouseMoveEvent_def mouseReleaseEvent_def mouseDoubleClickEvent_def
  finish_editing_def zoom_in_def zoom_out_def add_node_def add_text_node_def
  delete_selected_def delete_selected_node_def delete_selected_arrow_def
  append_node_def append_arrow_def new_node_def set_text_def Node_set_text_def
  TextNode_set_text_def select_node_def select_arrow_def hide_editor_def scaled_def
  contains_def init_canvas_def example_font_def str_nat.simps

lemma hypot_less_iff: "0 < t \<Longrightarrow> hypot a b < t \<longleftrightarrow> a * a + b * b < t * t"
proof -
  assume t: "0 < t"
  then have "sqrt (t * t) = t" by simp
  then have "hypot a b < t \<longleftrightarrow> sqrt (a * a + b * b) < sqrt (t * t)"
    by (simp add: hypot_def)
  then show ?thesis by (simp only: real_sqrt_less_iff)
qed







lemma example_run:
  "run example_font example_events init_canvas =
     (None,
      \<lparr>node_obj =
         (\<lambda>_. \<lparr>n_class = Node, n_x = 0, n_y = 0, n_text = [],
                 n_selected = False, n_w = 0, n_h = 0\<rparr>)
         (0 := \<lparr>n_class = Node, n_x = 20, n_y = 20, n_text = ''Node 1'',
                  n_selected = False, n_w = 66, n_h = 28\<rparr>,
          Suc 0 := \<lparr>n_class = TextNode, n_x = 200, n_y = 20, n_text = ''Text 1'',
                  n_selected = False, n_w = 66, n_h = 28\<rparr>,
          Suc (Suc 0) := \<lparr>n_class = Node, n_x = 400, n_y = 20, n_text = ''Node 2'',
                  n_selected = True, n_w = 66, n_h = 28\<rparr>),
       arrow_obj =
         (\<lambda>_. \<lparr>start_node = 0, end_node = 0, a_selected = False\<rparr>)
         (0 := \<lparr>start_node = 0, end_node = Suc 0, a_selected = False\<rparr>,
          Suc 0 := \<lparr>start_node = Suc 0, end_node = Suc (Suc 0), a_selected = False\<rparr>),
       next_node = Suc (Suc (Suc 0)), next_arrow = Suc (Suc 0),
       nodes = [0, Suc 0, Suc (Suc 0)], arrows = [0, Suc 0],
       dragging_node = None, drag_offset = (5, 5),
       selected_node = Some (Suc (Suc 0)), selected_arrow = None,
       arrow_source_node = None, zoom = 1, editing_node = None\<rparr>)"
  by (simp add: example_events_def handler_defs)

lemma example_canvas_eq:
  "example_canvas =
      \<lparr>node_obj =
         (\<lambda>_. \<lparr>n_class = Node, n_x = 0, n_y = 0, n_text = [],
                 n_selected = False, n_w = 0, n_h = 0\<rparr>)
         (0 := \<lparr>n_class = Node, n_x = 20, n_y = 20, n_text = ''Node 1'',
                  n_selected = False, n_w = 66, n_h = 28\<rparr>,
          Suc 0 := \<lparr>n_class = TextNode, n_x = 200, n_y = 20, n_text = ''Text 1'',
                  n_selected = False, n_w = 66, n_h = 28\<rparr>,
          Suc (Suc 0) := \<lparr>n_class = Node, n_x = 400, n_y = 20, n_text = ''Node 2'',
                  n_selected = True, n_w = 66, n_h = 28\<rparr>),
       arrow_obj =
         (\<lambda>_. \<lparr>start_node = 0, end_node = 0, a_selected = False\<rparr>)
         (0 := \<lparr>start_node = 0, end_node = Suc 0, a_selected = False\<rparr>,
          Suc 0 := \<lparr>start_node = Suc 0, end_node = Suc (Suc 0), a_selected = False\<rparr>),
       next_node = Suc (Suc (Suc 0)), next_arrow = Suc (Suc 0),
       nodes = [0, Suc 0, Suc (Suc 0)], arrows = [0, Suc 0],
       dragging_node = None, drag_offset = (5, 5),
       selected_node = Some (Suc (Suc 0)), selected_arrow = None,
       arrow_source_node = None, zoom = 1, editing_node = None\<rparr>"
  by (simp add: example_canvas_def example_run)

lemma example_canvas_fields:
  "nodes example_canvas = [0, 1, 2]"
  "arrows example_canvas = [0, 1]"
  "arrow_obj example_canvas 0 = \<lparr>start_node = 0, end_node = 1, a_selected = False\<rparr>"
  "arrow_obj example_canvas (Suc 0) = \<lparr>start_node = 1, end_node = 2, a_selected = False\<rparr>"
  "node_obj example_canvas 0 =
     \<lparr>n_class = Node, n_x = 20, n_y = 20, n_text = ''Node 1'', n_selected = False,
      n_w = 66, n_h = 28\<rparr>"
  "node_obj example_canvas (Suc 0) =
     \<lparr>n_class = TextNode, n_x = 200, n_y = 20, n_text = ''Text 1'', n_selected = False,
      n_w = 66, n_h = 28\<rparr>"
  "node_obj example_canvas 2 =
     \<lparr>n_class = Node, n_x = 400, n_y = 20, n_text = ''Node 2'', n_selected = True,
      n_w = 66, n_h = 28\<rparr>"
  "next_node example_canvas = 3"
  "next_arrow example_canvas = 2"
  "selected_node example_canvas = Some 2"
  "selected_arrow example_canvas = None"
  "arrow_source_node example_canvas = None"
  "editing_node example_canvas = None"
  "zoom example_canvas = 1"
  by (simp_all add: example_canvas_eq numeral_2_eq_2 numeral_3_eq_3)

lemma example_reachable: "reachable example_font example_canvas"
proof -
  have "run example_font example_events init_canvas = (None, example_canvas)"
    by (simp add: example_canvas_def example_run)
  with reachable.start show ?thesis by (rule run_reachable)
qed

section \<open>Selection\<close>

text \<open>
  C5. After \<open>select_node\<close>, after \<open>select_arrow\<close>, after the two calls that clear
  the selection and after any left button press, at most one object of the node list and
  the arrow list together has its \<open>selected\<close> flag set. Selecting a node sets the flag
  of exactly that node among the listed nodes and clears the flag of every listed arrow;
  selecting an arrow sets the flag of exactly that arrow and clears the flag of every
  listed node.
\<close>

theorem selection_exclusive:
  "selected_count (select_node (Some k) c) \<le> 1 \<and>
   selected_count (select_arrow (Some j) c) \<le> 1 \<and>
   selected_count (select_arrow None (select_node None c)) = 0 \<and>
   selected_count (mousePressEvent LeftButton p c) \<le> 1 \<and>
   (\<forall>n \<in> set (nodes c). n_selected (node_obj (select_node (Some k) c) n) = (n = k)) \<and>
   (\<forall>a \<in> set (arrows c). \<not> a_selected (arrow_obj (select_node (Some k) c) a)) \<and>
   (\<forall>a \<in> set (arrows c). a_selected (arrow_obj (select_arrow (Some j) c) a) = (a = j)) \<and>
   (\<forall>n \<in> set (nodes c). \<not> n_selected (node_obj (select_arrow (Some j) c) n))"
  using selected_count_select_node [of "Some k" c] selected_count_select_arrow_Some [of j c]
    selected_count_left_press [of p c]
  by (simp add: selected_count_clear select_node_node_obj select_node_arrow_obj
      select_arrow_node_obj select_arrow_arrow_obj)

theorem selection_exclusive_witness:
  "selected_count (select_node (Some 0) example_canvas) \<le> 1 \<and>
   n_selected (node_obj example_canvas 2) \<and>
   n_selected (node_obj (select_node (Some 0) example_canvas) 0) \<and>
   \<not> n_selected (node_obj (select_node (Some 0) example_canvas) 2) \<and>
   \<not> a_selected (arrow_obj (select_node (Some 0) example_canvas) 1) \<and>
   selected_count (select_arrow (Some 1) example_canvas) \<le> 1 \<and>
   a_selected (arrow_obj (select_arrow (Some 1) example_canvas) 1) \<and>
   \<not> a_selected (arrow_obj (select_arrow (Some 1) example_canvas) 0) \<and>
   \<not> n_selected (node_obj (select_arrow (Some 1) example_canvas) 2)"
  using selection_exclusive [of 0 example_canvas 1 "(0, 0)"]
  by (simp add: example_canvas_fields)

section \<open>Deleting a node\<close>

text \<open>
  C4. In every canvas the editor can reach, deleting the selected node \<open>n\<close>, a node of
  the node list, raises nothing, takes \<open>n\<close> out of the node list and keeps exactly the
  arrows that neither start nor end at \<open>n\<close>: no arrow left in the list refers to \<open>n\<close>.
  The handler is one transition of the editor, so no other handler sees the canvas
  between the two removals.
\<close>

theorem delete_node_cascades:
  assumes "reachable fm c" and "selected_node c = Some n" and "n \<in> set (nodes c)"
  shows "fst (delete_selected_node c) = None \<and>
         step fm Delete c = delete_selected_node c \<and>
         nodes (snd (delete_selected_node c)) = remove1 n (nodes c) \<and>
         n \<notin> set (nodes (snd (delete_selected_node c))) \<and>
         arrows (snd (delete_selected_node c)) =
           filter (\<lambda>a. start_node (arrow_obj c a) \<noteq> n \<and> end_node (arrow_obj c a) \<noteq> n) (arrows c) \<and>
         list_all (\<lambda>a. start_node (arrow_obj (snd (delete_selected_node c)) a) \<noteq> n \<and>
                       end_node (arrow_obj (snd (delete_selected_node c)) a) \<noteq> n)
           (arrows (snd (delete_selected_node c)))"
proof -
  from assms(1) have "distinct (nodes c)"
    by (auto dest: reachable_well_formed simp: well_formed_def)
  with assms(2,3) show ?thesis
    by (simp add: delete_selected_node_def delete_selected_def Let_def list_all_iff)
qed

theorem delete_node_cascades_witness:
  "selected_node example_canvas = Some 2 \<and> 2 \<in> set (nodes example_canvas) \<and>
   fst (delete_selected_node example_canvas) = None \<and>
   nodes (snd (delete_selected_node example_canvas)) = [0, 1] \<and>
   arrows (snd (delete_selected_node example_canvas)) = [0]"
  using delete_node_cascades [OF example_reachable, of 2]
  by (simp add: example_canvas_fields)

section \<open>The linking gesture\<close>

lemma right_press_hit:
  assumes "node_at c p = Some n"
  shows "mousePressEvent RightButton p c =
           (case arrow_source_node c of
              Some src \<Rightarrow>
                if src \<noteq> n
                then hide_editor ((append_arrow src n c)\<lparr>arrow_source_node := None\<rparr>)
                else c\<lparr>arrow_source_node := Some n\<rparr>
            | None \<Rightarrow> c\<lparr>arrow_source_node := Some n\<rparr>)"
  using assms by (simp add: mousePressEvent_def node_at_def Let_def)

lemma node_at_frame:
  assumes "nodes c' = nodes c" and "node_obj c' = node_obj c" and "zoom c' = zoom c"
  shows "node_at c' p = node_at c p"
  using assms by (simp add: node_at_def)

lemma example_node_at:
  "node_at example_canvas (25, 25) = Some 0"
  "node_at example_canvas (205, 25) = Some 1"
  "node_at example_canvas (405, 25) = Some 2"
  by (simp_all add: node_at_def scaled_def contains_def example_canvas_fields)

text \<open>
  C6. A right press on a node \<open>n\<close> while \<open>n\<close> itself is the pending source adds no
  arrow: the arrow list, its length and the arrow objects stay as they were (and \<open>n\<close>
  stays the pending source). A right press on \<open>n\<close> while another node \<open>s\<close> is the
  pending source appends one new arrow from \<open>s\<close> to \<open>n\<close>.
\<close>

theorem self_link_is_noop:
  assumes "node_at c p = Some n"
  shows "(arrow_source_node c = Some n \<longrightarrow>
            arrows (mousePressEvent RightButton p c) = arrows c \<and>
            length (arrows (mousePressEvent RightButton p c)) = length (arrows c) \<and>
            arrow_obj (mousePressEvent RightButton p c) = arrow_obj c \<and>
            arrow_source_node (mousePressEvent RightButton p c) = Some n) \<and>
         (\<forall>s. arrow_source_node c = Some s \<longrightarrow> s \<noteq> n \<longrightarrow>
            arrows (mousePressEvent RightButton p c) = arrows c @ [next_arrow c] \<and>
            arrow_obj (mousePressEvent RightButton p c) (next_arrow c) =
              \<lparr>start_node = s, end_node = n, a_selected = False\<rparr>)"
  by (simp add: right_press_hit [OF assms] hide_editor_def append_arrow_def)

theorem self_link_is_noop_witness:
  "node_at (mousePressEvent RightButton (25, 25) example_canvas) (25, 25) = Some 0 \<and>
   arrow_source_node (mousePressEvent RightButton (25, 25) example_canvas) = Some 0 \<and>
   arrows (mousePressEvent RightButton (25, 25)
             (mousePressEvent RightButton (25, 25) example_canvas)) = [0, 1] \<and>
   node_at (mousePressEvent RightButton (25, 25) example_canvas) (205, 25) = Some 1 \<and>
   arrows (mousePressEvent RightButton (205, 25)
             (mousePressEvent RightButton (25, 25) example_canvas)) = [0, 1, 2]"
proof -
  let ?c = "example_canvas\<lparr>arrow_source_node := Some 0\<rparr>"
  have c: "mousePressEvent RightButton (25, 25) example_canvas = ?c"
    by (simp add: right_press_hit [OF example_node_at(1)] example_canvas_fields)
  have a: "node_at ?c (25, 25) = Some 0" and b: "node_at ?c (205, 25) = Some 1"
    by (simp_all add: node_at_frame [of ?c example_canvas] example_node_at)
  from self_link_is_noop [OF a] self_link_is_noop [OF b] a b show ?thesis
    by (simp add: c example_canvas_fields)
qed

section \<open>Repeating the linking gesture\<close>

lemma link_gesture_once:
  assumes "node_at c p1 = Some a" and "node_at c p2 = Some b" and "a \<noteq> b"
    and "arrow_source_node c = None"
  shows "link_gesture p1 p2 c =
           hide_editor ((append_arrow a b (c\<lparr>arrow_source_node := Some a\<rparr>))
                          \<lparr>arrow_source_node := None\<rparr>)"
proof -
  let ?c1 = "c\<lparr>arrow_source_node := Some a\<rparr>"
  from assms(1,4) have first: "mousePressEvent RightButton p1 c = ?c1"
    by (simp add: right_press_hit)
  from assms(2) have "node_at ?c1 p2 = Some b"
    by (simp add: node_at_frame [of ?c1 c])
  with assms(3) show ?thesis
    by (simp add: link_gesture_def first right_press_hit)
qed

lemma arrows_between_append:
  assumes "list_all (\<lambda>r. r < next_arrow c) (arrows c)"
  shows "arrows_between a b
           (hide_editor ((append_arrow a b (c\<lparr>arrow_source_node := Some a\<rparr>))
                           \<lparr>arrow_source_node := None\<rparr>)) =
         Suc (arrows_between a b c)"
proof -
  have "filter (\<lambda>r. start_node (((arrow_obj c)(next_arrow c :=
                     \<lparr>start_node = a, end_node = b, a_selected = False\<rparr>)) r) = a \<and>
                   end_node (((arrow_obj c)(next_arrow c :=
                     \<lparr>start_node = a, end_node = b, a_selected = False\<rparr>)) r) = b) (arrows c) =
        filter (\<lambda>r. start_node (arrow_obj c r) = a \<and> end_node (arrow_obj c r) = b) (arrows c)"
    using assms by (intro filter_cong) (auto simp: list_all_iff)
  then show ?thesis
    by (simp add: arrows_between_def hide_editor_def append_arrow_def)
qed

lemma link_gesture_repeated:
  assumes "node_at c p1 = Some a" and "node_at c p2 = Some b" and "a \<noteq> b"
    and "arrow_source_node c = None" and "list_all (\<lambda>r. r < next_arrow c) (arrows c)"
  shows "node_at ((link_gesture p1 p2 ^^ k) c) p1 = Some a \<and>
         node_at ((link_gesture p1 p2 ^^ k) c) p2 = Some b \<and>
         arrow_source_node ((link_gesture p1 p2 ^^ k) c) = None \<and>
         list_all (\<lambda>r. r < next_arrow ((link_gesture p1 p2 ^^ k) c))
           (arrows ((link_gesture p1 p2 ^^ k) c)) \<and>
         arrows_between a b ((link_gesture p1 p2 ^^ k) c) = arrows_between a b c + k \<and>
         length (arrows ((link_gesture p1 p2 ^^ k) c)) = length (arrows c) + k"
proof (induction k)
  case 0
  from assms show ?case by simp
next
  case (Suc k)
  let ?ck = "(link_gesture p1 p2 ^^ k) c"
  let ?new = "hide_editor ((append_arrow a b (?ck\<lparr>arrow_source_node := Some a\<rparr>))
                             \<lparr>arrow_source_node := None\<rparr>)"
  from Suc.IH assms(3) have step: "link_gesture p1 p2 ?ck = ?new"
    by (intro link_gesture_once) simp_all
  have frame: "node_at ?new p1 = node_at ?ck p1" "node_at ?new p2 = node_at ?ck p2"
    by (simp_all add: node_at_def hide_editor_def append_arrow_def)
  from Suc.IH have fresh: "list_all (\<lambda>r. r < next_arrow ?new) (arrows ?new)"
    by (auto simp: hide_editor_def append_arrow_def list_all_iff less_Suc_eq)
  from Suc.IH have count: "arrows_between a b ?new = Suc (arrows_between a b c + k)"
    by (simp add: arrows_between_append)
  have len: "length (arrows ?new) = Suc (length (arrows ?ck))"
    by (simp add: hide_editor_def append_arrow_def)
  have src: "arrow_source_node ?new = None"
    by (simp add: hide_editor_def append_arrow_def)
  from Suc.IH frame fresh count len src show ?case
    by (simp add: step)
qed

text \<open>
  C10. Nothing looks for an existing arrow before a new one is appended. In a canvas the
  editor can reach, with no pending source, let right presses at \<open>p1\<close> and \<open>p2\<close> hit two
  different nodes \<open>a\<close> and \<open>b\<close>. Then \<open>k\<close> linking gestures from \<open>a\<close> to \<open>b\<close> add
  \<open>k\<close> arrows from \<open>a\<close> to \<open>b\<close> to those the canvas already has: the arrow list grows
  by \<open>k\<close>, and so does the number of its arrows from \<open>a\<close> to \<open>b\<close>.
\<close>

theorem linking_never_deduplicates:
  assumes "reachable fm c"
    and "node_at c p1 = Some a" and "node_at c p2 = Some b" and "a \<noteq> b"
    and "arrow_source_node c = None"
  shows "arrows_between a b ((link_gesture p1 p2 ^^ k) c) = arrows_between a b c + k \<and>
         length (arrows ((link_gesture p1 p2 ^^ k) c)) = length (arrows c) + k"
proof -
  from assms(1) have "list_all (\<lambda>r. r < next_arrow c) (arrows c)"
    by (auto dest: reachable_well_formed simp: well_formed_def)
  with assms(2-5) show ?thesis
    using link_gesture_repeated [of c p1 a p2 b k] by simp
qed

theorem linking_never_deduplicates_witness:
  "node_at example_canvas (25, 25) = Some 0 \<and> node_at example_canvas (205, 25) = Some 1 \<and>
   arrow_source_node example_canvas = None \<and>
   arrows_between 0 1 example_canvas = 1 \<and>
   arrows_between 0 1 ((link_gesture (25, 25) (205, 25) ^^ 3) example_canvas) = 4 \<and>
   length (arrows ((link_gesture (25, 25) (205, 25) ^^ 3) example_canvas)) = 5"
proof -
  have n: "arrows_between 0 1 example_canvas = 1"
    by (simp add: arrows_between_def example_canvas_fields)
  have "(0::nat) \<noteq> 1" by simp
  from linking_never_deduplicates
    [OF example_reachable example_node_at(1) example_node_at(2) this, of 3] n
  show ?thesis
    by (simp add: example_node_at example_canvas_fields)
qed

section \<open>Node sizing\<close>

text \<open>
  C7. \<open>set_text\<close> stores the text and sizes the node from it, for a concept node and
  for a text node alike, also for the empty string: the width is the advance width of the
  new text plus 18, the height the line height plus 12. The editor's text commit
  (\<open>finish_editing\<close>) sizes the edited node in this way, and in every canvas the
  editor can reach every node of the node list has the size its current text gives.
\<close>

theorem set_text_sizes_node:
  "n_text (set_text fm s n) = s \<and>
   n_w (set_text fm s n) = horizontalAdvance fm s + 18 \<and>
   n_h (set_text fm s n) = height fm + 12 \<and>
   n_w (set_text fm [] n) = horizontalAdvance fm [] + 18 \<and>
   Node_set_text fm s n = TextNode_set_text fm s n \<and>
   (editing_node c = Some k \<longrightarrow>
      n_text (node_obj (finish_editing fm s c) k) = s \<and>
      n_w (node_obj (finish_editing fm s c) k) = horizontalAdvance fm s + 18 \<and>
      n_h (node_obj (finish_editing fm s c) k) = height fm + 12) \<and>
   (reachable fm c \<longrightarrow> list_all (\<lambda>k. sized fm (node_obj c k)) (nodes c))"
proof -
  have "list_all (\<lambda>k. sized fm (node_obj c k)) (nodes c)" if "reachable fm c"
    using reachable_well_formed [OF that] by (auto simp: well_formed_def list_all_iff)
  then show ?thesis
    by (simp add: set_text_def Node_set_text_def TextNode_set_text_def finish_editing_def
        split: node_class.splits)
qed

theorem set_text_sizes_node_witness:
  "n_w (set_text example_font ''Concept'' (node_obj example_canvas 0)) = 74 \<and>
   n_h (set_text example_font ''Concept'' (node_obj example_canvas 0)) = 28 \<and>
   n_w (set_text example_font [] (node_obj example_canvas 1)) = 18 \<and>
   editing_node (mouseDoubleClickEvent example_font (25, 25) example_canvas) = Some 0 \<and>
   n_w (node_obj (finish_editing example_font ''Concept''
          (mouseDoubleClickEvent example_font (25, 25) example_canvas)) 0) = 74 \<and>
   sized example_font (node_obj example_canvas 0) \<and>
   sized example_font (node_obj example_canvas 1) \<and>
   sized example_font (node_obj example_canvas 2)"
proof -
  have e: "editing_node (mouseDoubleClickEvent example_font (25, 25) example_canvas) = Some 0"
    using example_node_at(1) by (simp add: mouseDoubleClickEvent_def node_at_def)
  from set_text_sizes_node [of example_font "''Concept''" "node_obj example_canvas 0"
      "mouseDoubleClickEvent example_font (25, 25) example_canvas" 0]
    set_text_sizes_node [of example_font "[]" "node_obj example_canvas 1" example_canvas 0]
    example_reachable e
  show ?thesis
    by (simp add: example_canvas_fields example_font_def)
qed

section \<open>The boundary point\<close>









section \<open>The triple export\<close>

lemma get_list_fold_outgoing:
  "get_list
     (fold (\<lambda>a m. m(start_node (obj a) \<mapsto>
              (case m (start_node (obj a)) of None \<Rightarrow> [] | Some l \<Rightarrow> l) @ [end_node (obj a)]))
        as m) k =
   get_list m k @ map (\<lambda>a. end_node (obj a)) (filter (\<lambda>a. start_node (obj a) = k) as)"
proof -
  define f where "f = (\<lambda>a (m :: ref \<rightharpoonup> ref list). m(start_node (obj a) \<mapsto>
              (case m (start_node (obj a)) of None \<Rightarrow> [] | Some l \<Rightarrow> l) @ [end_node (obj a)]))"
  have one: "get_list (f a m) k =
               get_list m k @ (if start_node (obj a) = k then [end_node (obj a)] else [])"
    for a m
    by (simp add: f_def get_list_def split: option.splits)
  have "get_list (fold f as m) k =
          get_list m k @ map (\<lambda>a. end_node (obj a)) (filter (\<lambda>a. start_node (obj a) = k) as)"
    by (induction as arbitrary: m) (simp_all add: one)
  then show ?thesis by (simp add: f_def)
qed

lemma get_list_outgoing:
  "get_list (outgoing c) k =
     map (\<lambda>a. end_node (arrow_obj c a)) (filter (\<lambda>a. start_node (arrow_obj c a) = k) (arrows c))"
  by (simp add: outgoing_def get_list_fold_outgoing [where obj = "arrow_obj c"])
     (simp add: get_list_def)

lemma concat_map_filter:
  "concat (map (f \<circ> g) (filter Q xs)) = concat (map (\<lambda>x. if Q x then f (g x) else []) xs)"
  by (induction xs) simp_all

text \<open>
  C9. The lines \<open>export_node_textnode_node_tuples\<close> writes are exactly the lines of
  \<open>proposition_lines\<close>, in the same order and as many times: one line
  \<open>A.text, M.text, B.text\<close> for every concept node \<open>A\<close> of the node list, every arrow
  from \<open>A\<close> to a text node \<open>M\<close> and every arrow from \<open>M\<close> to a concept node \<open>B\<close>,
  and no other line. The function has no failing branch. In the example session (a
  concept node, a text node, a concept node, joined by two arrows) the export is the one
  line \<open>Node 1, Text 1, Node 2\<close>; with a concept-to-concept arrow added it is the same.
\<close>

theorem export_is_proposition_lines:
  "export_node_textnode_node_tuples c = proposition_lines c \<and>
   export_node_textnode_node_tuples example_canvas = [''Node 1, Text 1, Node 2'' @ [CHR 0x0A]] \<and>
   export_node_textnode_node_tuples (append_arrow 0 2 example_canvas) =
     [''Node 1, Text 1, Node 2'' @ [CHR 0x0A]]"
proof -
  have general: "export_node_textnode_node_tuples c = proposition_lines c" for c
    by (simp add: export_node_textnode_node_tuples_def proposition_lines_def
        get_list_outgoing concat_map_filter cong: if_cong)
  have "proposition_lines example_canvas = [''Node 1, Text 1, Node 2'' @ [CHR 0x0A]]"
    by (simp add: proposition_lines_def triple_line_def example_canvas_fields)
  moreover
  have "proposition_lines (append_arrow 0 2 example_canvas) =
          [''Node 1, Text 1, Node 2'' @ [CHR 0x0A]]"
    by (simp add: proposition_lines_def triple_line_def append_arrow_def example_canvas_fields)
  ultimately show ?thesis
    by (simp only: general simp_thms)
qed

section \<open>Saving and loading\<close>

subsection \<open>What \<open>save_diagram\<close> writes\<close>

lemma fold_index_bound:
  assumes f: "\<And>idx n m. f (idx, n) m = m(n \<mapsto> idx)"
    and m: "\<And>k i. m k = Some i \<Longrightarrow> i < b + length ns"
    and r: "fold f (enumerate b ns) m k = Some i"
  shows "i < b + length ns"
  using m r
proof (induction ns arbitrary: m b)
  case Nil
  then show ?case by simp
next
  case (Cons n ns)
  from Cons.prems(2) have "fold f (enumerate (Suc b) ns) (m(n \<mapsto> b)) k = Some i"
    by (simp add: f)
  moreover have "i' < Suc b + length ns" if "(m(n \<mapsto> b)) k' = Some i'" for k' i'
    using that Cons.prems(1) [of k' i'] by (auto split: if_splits)
  ultimately have "i < Suc b + length ns"
    using Cons.IH [of "m(n \<mapsto> b)" "Suc b"] by blast
  then show ?case by simp
qed

lemma node_indices_bound:
  assumes "node_indices ns k = Some i"
  shows "i < length ns"
proof -
  have "i < 0 + length ns"
  proof (rule fold_index_bound)
    show "(\<lambda>(idx, n) m. m(n \<mapsto> idx)) (idx, n) m = m(n \<mapsto> idx)"
      for idx :: nat and n :: ref and m :: "ref \<rightharpoonup> nat"
      by simp
    show "fold (\<lambda>(idx, n) m. m(n \<mapsto> idx)) (enumerate 0 ns) Map.empty k = Some i"
      using assms by (simp add: node_indices_def)
  qed simp
  then show ?thesis by simp
qed

lemma arrow_to_dict_index_ok:
  assumes "arrow_to_dict (node_indices ns) a = Inr ad"
  shows "index_ok (length ns) ad"
  using assms
  by (auto simp: arrow_to_dict_def index_ok_def split: option.splits dest: node_indices_bound)

lemma arrows_to_dicts_index_ok:
  "arrows_to_dicts (node_indices ns) as = Inr ads \<Longrightarrow> list_all (index_ok (length ns)) ads"
proof (induction as arbitrary: ads)
  case Nil
  then show ?case by simp
next
  case (Cons a as)
  then show ?case
    by (auto split: sum.splits dest: arrow_to_dict_index_ok)
qed

lemma known_type_to_dict [simp]: "known_type (to_dict n)"
  by (simp add: known_type_def to_dict_def split: node_class.splits)

lemma save_diagram_shape:
  assumes "save_diagram c = Inr d"
  shows "saved_shape d"
proof -
  from assms obtain ads where
    ads: "arrows_to_dicts (node_indices (nodes c)) (map (arrow_obj c) (arrows c)) = Inr ads"
    and d: "d = \<lparr>d_nodes = map (\<lambda>n. to_dict (node_obj c n)) (nodes c), d_arrows = ads\<rparr>"
    by (auto simp: save_diagram_def split: sum.splits)
  from ads have "list_all (index_ok (length (nodes c))) ads"
    by (rule arrows_to_dicts_index_ok)
  with d show ?thesis
    by (simp add: saved_shape_def list_all_iff)
qed


lemma fold_index_other:
  assumes f: "\<And>idx n m. f (idx, n) m = m(n \<mapsto> idx)"
    and "k \<notin> set ns"
  shows "fold f (enumerate b ns) m k = m k"
  using assms(2)
  by (induction ns arbitrary: m b) (simp_all add: f)

lemma fold_index_lookup:
  assumes f: "\<And>idx n m. f (idx, n) m = m(n \<mapsto> idx)"
    and "distinct ns" and "j < length ns"
  shows "fold f (enumerate b ns) m (ns ! j) = Some (b + j)"
  using assms(2,3)
proof (induction ns arbitrary: m b j)
  case Nil
  then show ?case by simp
next
  case (Cons n ns)
  show ?case
  proof (cases j)
    case 0
    from Cons.prems(1) have "n \<notin> set ns" by simp
    then have "fold f (enumerate (Suc b) ns) (m(n \<mapsto> b)) n = (m(n \<mapsto> b)) n"
      by (rule fold_index_other [OF f])
    with 0 show ?thesis by (simp add: f)
  next
    case (Suc j')
    with Cons.prems have "fold f (enumerate (Suc b) ns) (m(n \<mapsto> b)) (ns ! j') = Some (Suc b + j')"
      by (intro Cons.IH) simp_all
    with Suc show ?thesis by (simp add: f)
  qed
qed

lemma node_indices_lookup:
  assumes "distinct ns" and "j < length ns"
  shows "node_indices ns (ns ! j) = Some j"
proof -
  have "fold (\<lambda>(idx, n) m. m(n \<mapsto> idx)) (enumerate 0 ns) Map.empty (ns ! j) = Some (0 + j)"
    using assms by (intro fold_index_lookup) simp_all
  then show ?thesis by (simp add: node_indices_def)
qed

subsection \<open>What \<open>load_diagram\<close> builds from such a document\<close>

lemma to_dict_new_node:
  "d_type nd = ''node'' \<Longrightarrow> to_dict (new_node fm Node (d_x nd) (d_y nd) (d_text nd)) = nd"
  "d_type nd = ''textnode'' \<Longrightarrow> to_dict (new_node fm TextNode (d_x nd) (d_y nd) (d_text nd)) = nd"
  by (simp_all add: to_dict_def new_node_def set_text_def Node_set_text_def TextNode_set_text_def)

lemma load_nodes_frame [simp]:
  "arrows (load_nodes fm nds c) = arrows c"
  "arrow_obj (load_nodes fm nds c) = arrow_obj c"
  "next_arrow (load_nodes fm nds c) = next_arrow c"
  "selected_node (load_nodes fm nds c) = selected_node c"
  "selected_arrow (load_nodes fm nds c) = selected_arrow c"
  "arrow_source_node (load_nodes fm nds c) = arrow_source_node c"
  by (induction nds arbitrary: c) (simp_all add: append_node_def)

lemma load_nodes_fresh:
  assumes "distinct (nodes c)" and "list_all (\<lambda>n. n < next_node c) (nodes c)"
  shows "distinct (nodes (load_nodes fm nds c)) \<and>
         list_all (\<lambda>n. n < next_node (load_nodes fm nds c)) (nodes (load_nodes fm nds c))"
  using assms
proof (induction nds arbitrary: c)
  case Nil
  then show ?case by simp
next
  case (Cons nd nds)
  have "distinct (nodes (append_node n c)) \<and>
        list_all (\<lambda>k. k < next_node (append_node n c)) (nodes (append_node n c))" for n
    using Cons.prems by (auto simp: append_node_def list_all_iff less_Suc_eq)
  with Cons.IH Cons.prems show ?case by simp
qed

lemma load_nodes_dicts:
  assumes "list_all known_type nds" and "list_all (\<lambda>n. n < next_node c) (nodes c)"
  shows "map (\<lambda>n. to_dict (node_obj (load_nodes fm nds c) n)) (nodes (load_nodes fm nds c)) =
           map (\<lambda>n. to_dict (node_obj c n)) (nodes c) @ nds"
  using assms
proof (induction nds arbitrary: c)
  case Nil
  show ?case by simp
next
  case (Cons nd nds)
  define k where "k = (if d_type nd = ''node'' then Node else TextNode)"
  define c1 where "c1 = append_node (new_node fm k (d_x nd) (d_y nd) (d_text nd)) c"
  from Cons.prems(1) have known: "d_type nd = ''node'' \<or> d_type nd = ''textnode''"
    by (simp add: known_type_def)
  then have unfold: "load_nodes fm (nd # nds) c = load_nodes fm nds c1"
    by (auto simp: c1_def k_def)
  from known have nd: "to_dict (new_node fm k (d_x nd) (d_y nd) (d_text nd)) = nd"
    by (auto simp: k_def to_dict_new_node)
  from Cons.prems(2) have fresh1: "list_all (\<lambda>n. n < next_node c1) (nodes c1)"
    by (auto simp: c1_def append_node_def list_all_iff less_Suc_eq)
  from Cons.prems(2) have old: "map (\<lambda>n. to_dict (node_obj c1 n)) (nodes c) =
                                  map (\<lambda>n. to_dict (node_obj c n)) (nodes c)"
    by (auto simp: c1_def append_node_def list_all_iff)
  have "map (\<lambda>n. to_dict (node_obj c1 n)) (nodes c1) =
          map (\<lambda>n. to_dict (node_obj c n)) (nodes c) @ [nd]"
    using old nd by (simp add: c1_def append_node_def)
  moreover from Cons.prems(1) fresh1
  have "map (\<lambda>n. to_dict (node_obj (load_nodes fm nds c1) n)) (nodes (load_nodes fm nds c1)) =
          map (\<lambda>n. to_dict (node_obj c1 n)) (nodes c1) @ nds"
    by (intro Cons.IH) simp_all
  ultimately show ?case unfolding unfold by simp
qed

lemma py_index_in_range:
  assumes "0 \<le> i" and "i < int (length xs)"
  shows "py_index xs i = Inr (xs ! nat i)"
  using assms by (simp add: py_index_def Let_def)

lemma load_arrows_frame [simp]:
  "nodes (snd (load_arrows ads c)) = nodes c"
  "node_obj (snd (load_arrows ads c)) = node_obj c"
  "next_node (snd (load_arrows ads c)) = next_node c"
  "selected_node (snd (load_arrows ads c)) = selected_node c"
  "selected_arrow (snd (load_arrows ads c)) = selected_arrow c"
  "arrow_source_node (snd (load_arrows ads c)) = arrow_source_node c"
  by (induction ads arbitrary: c) (simp_all add: append_arrow_def split: sum.splits)

lemma load_arrows_objects:
  assumes "list_all (index_ok (length (nodes c))) ads"
    and "list_all (\<lambda>a. a < next_arrow c) (arrows c)"
  shows "fst (load_arrows ads c) = None \<and>
         map (arrow_obj (snd (load_arrows ads c))) (arrows (snd (load_arrows ads c))) =
           map (arrow_obj c) (arrows c) @
           map (\<lambda>ad. \<lparr>start_node = nodes c ! nat (d_start ad),
                       end_node = nodes c ! nat (d_end ad), a_selected = False\<rparr>) ads"
  using assms
proof (induction ads arbitrary: c)
  case Nil
  show ?case by simp
next
  case (Cons ad ads)
  define c1 where
    "c1 = append_arrow (nodes c ! nat (d_start ad)) (nodes c ! nat (d_end ad)) c"
  from Cons.prems(1) have ok: "index_ok (length (nodes c)) ad"
    by simp
  then have unfold: "load_arrows (ad # ads) c = load_arrows ads c1"
    by (simp add: index_ok_def py_index_in_range c1_def)
  have nodes1: "nodes c1 = nodes c"
    by (simp add: c1_def append_arrow_def)
  from Cons.prems(2) have fresh1: "list_all (\<lambda>a. a < next_arrow c1) (arrows c1)"
    by (auto simp: c1_def append_arrow_def list_all_iff less_Suc_eq)
  from Cons.prems(2) have old: "map (arrow_obj c1) (arrows c) = map (arrow_obj c) (arrows c)"
    by (auto simp: c1_def append_arrow_def list_all_iff)
  have here: "map (arrow_obj c1) (arrows c1) =
          map (arrow_obj c) (arrows c) @
          [\<lparr>start_node = nodes c ! nat (d_start ad), end_node = nodes c ! nat (d_end ad),
            a_selected = False\<rparr>]"
    using old by (simp add: c1_def append_arrow_def)
  from Cons.prems(1) fresh1
  have "fst (load_arrows ads c1) = None \<and>
        map (arrow_obj (snd (load_arrows ads c1))) (arrows (snd (load_arrows ads c1))) =
          map (arrow_obj c1) (arrows c1) @
          map (\<lambda>ad. \<lparr>start_node = nodes c1 ! nat (d_start ad),
                      end_node = nodes c1 ! nat (d_end ad), a_selected = False\<rparr>) ads"
    by (intro Cons.IH) (simp_all add: nodes1)
  with here show ?case unfolding unfold by (simp add: nodes1)
qed

lemma arrows_to_dicts_rebuilt:
  assumes "distinct ns" and "list_all (index_ok (length ns)) ads"
  shows "arrows_to_dicts (node_indices ns)
           (map (\<lambda>ad. \<lparr>start_node = ns ! nat (d_start ad), end_node = ns ! nat (d_end ad),
                        a_selected = False\<rparr>) ads) = Inr ads"
  using assms(2)
proof (induction ads)
  case Nil
  show ?case by simp
next
  case (Cons ad ads)
  from Cons.prems have ok: "index_ok (length ns) ad" by simp
  then have "nat (d_start ad) < length ns" and "nat (d_end ad) < length ns"
    by (auto simp: index_ok_def)
  with assms(1) have "node_indices ns (ns ! nat (d_start ad)) = Some (nat (d_start ad))"
    and "node_indices ns (ns ! nat (d_end ad)) = Some (nat (d_end ad))"
    by (simp_all add: node_indices_lookup)
  with ok have "arrow_to_dict (node_indices ns)
      \<lparr>start_node = ns ! nat (d_start ad), end_node = ns ! nat (d_end ad), a_selected = False\<rparr>
      = Inr ad"
    by (simp add: arrow_to_dict_def index_ok_def)
  with Cons show ?case by simp
qed

subsection \<open>The round trip\<close>

lemma load_then_save:
  assumes "saved_shape d"
  shows "fst (load_diagram fm d c0) = None \<and>
         save_diagram (snd (load_diagram fm d c0)) = Inr d"
proof -
  define c1 where "c1 = c0\<lparr>nodes := [], arrows := []\<rparr>"
  define c2 where "c2 = load_nodes fm (d_nodes d) c1"
  define c3 where "c3 = snd (load_arrows (d_arrows d) c2)"
  from assms have known: "list_all known_type (d_nodes d)"
    and idx: "list_all (index_ok (length (d_nodes d))) (d_arrows d)"
    by (simp_all add: saved_shape_def)
  have dicts: "map (\<lambda>n. to_dict (node_obj c2 n)) (nodes c2) = d_nodes d"
    using load_nodes_dicts [OF known, of c1 fm] by (simp add: c2_def c1_def)
  then have len: "length (nodes c2) = length (d_nodes d)"
    by (metis length_map)
  have dist: "distinct (nodes c2)"
    using load_nodes_fresh [of c1 fm "d_nodes d"] by (simp add: c2_def c1_def)
  have empty: "arrows c2 = []"
    by (simp add: c2_def c1_def)
  from idx len have idx2: "list_all (index_ok (length (nodes c2))) (d_arrows d)"
    by simp
  from load_arrows_objects [OF idx2] empty
  have ok: "fst (load_arrows (d_arrows d) c2) = None"
    and objs: "map (arrow_obj c3) (arrows c3) =
                 map (\<lambda>ad. \<lparr>start_node = nodes c2 ! nat (d_start ad),
                             end_node = nodes c2 ! nat (d_end ad), a_selected = False\<rparr>)
                   (d_arrows d)"
    by (simp_all add: c3_def)
  have same: "nodes c3 = nodes c2" "node_obj c3 = node_obj c2"
    by (simp_all add: c3_def)
  from ok have result: "load_diagram fm d c0 =
      (None, c3\<lparr>selected_node := None, selected_arrow := None, arrow_source_node := None\<rparr>)"
    by (cases "load_arrows (d_arrows d) c2")
       (simp add: load_diagram_def Let_def c1_def c2_def c3_def)
  have "arrows_to_dicts (node_indices (nodes c3)) (map (arrow_obj c3) (arrows c3)) =
          Inr (d_arrows d)"
    unfolding objs same by (rule arrows_to_dicts_rebuilt [OF dist idx2])
  then have "save_diagram
      (c3\<lparr>selected_node := None, selected_arrow := None, arrow_source_node := None\<rparr>) = Inr d"
    by (simp add: save_diagram_def same dicts)
  with result show ?thesis by simp
qed

lemma fold_index_defined:
  assumes f: "\<And>idx n m. f (idx, n) m = m(n \<mapsto> idx)"
    and "k \<in> set ns"
  shows "\<exists>i. fold f (enumerate b ns) m k = Some i"
  using assms(2)
proof (induction ns arbitrary: m b)
  case Nil
  then show ?case by simp
next
  case (Cons n ns)
  show ?case
  proof (cases "k \<in> set ns")
    case True
    then have "\<exists>i. fold f (enumerate (Suc b) ns) (m(n \<mapsto> b)) k = Some i"
      by (rule Cons.IH)
    then show ?thesis by (simp add: f)
  next
    case False
    with Cons.prems have "k = n" by simp
    moreover from False have "fold f (enumerate (Suc b) ns) (m(n \<mapsto> b)) k = (m(n \<mapsto> b)) k"
      by (rule fold_index_other [OF f])
    ultimately show ?thesis by (simp add: f)
  qed
qed

lemma node_indices_defined:
  assumes "k \<in> set ns"
  shows "\<exists>i. node_indices ns k = Some i"
  unfolding node_indices_def using assms by (intro fold_index_defined) simp_all

lemma arrows_to_dicts_succeeds:
  assumes "list_all (\<lambda>a. start_node a \<in> set ns \<and> end_node a \<in> set ns) as"
  shows "\<exists>ds. arrows_to_dicts (node_indices ns) as = Inr ds"
  using assms
proof (induction as)
  case Nil
  show ?case by simp
next
  case (Cons a as)
  from Cons.prems obtain s e where "node_indices ns (start_node a) = Some s"
    and "node_indices ns (end_node a) = Some e"
    using node_indices_defined [of "start_node a" ns] node_indices_defined [of "end_node a" ns]
    by auto
  then have "arrow_to_dict (node_indices ns) a = Inr \<lparr>d_start = int s, d_end = int e\<rparr>"
    by (simp add: arrow_to_dict_def)
  moreover from Cons obtain ds where "arrows_to_dicts (node_indices ns) as = Inr ds"
    by auto
  ultimately show ?case by simp
qed

lemma save_diagram_succeeds:
  assumes "list_all (\<lambda>a. start_node (arrow_obj c a) \<in> set (nodes c) \<and>
                          end_node (arrow_obj c a) \<in> set (nodes c)) (arrows c)"
  shows "\<exists>d. save_diagram c = Inr d"
proof -
  from assms have "list_all (\<lambda>a. start_node a \<in> set (nodes c) \<and> end_node a \<in> set (nodes c))
                     (map (arrow_obj c) (arrows c))"
    by (simp add: list_all_iff)
  then obtain ds where
    "arrows_to_dicts (node_indices (nodes c)) (map (arrow_obj c) (arrows c)) = Inr ds"
    using arrows_to_dicts_succeeds by blast
  then show ?thesis by (simp add: save_diagram_def)
qed

text \<open>
  C3. Whatever document \<open>save_diagram\<close> writes for a canvas, loading it (into any
  canvas) succeeds, and saving the loaded canvas writes the same document again: the
  same node entries in the same order, with their types, texts and coordinates, and the
  same pairs of arrow indices. Saving succeeds for every canvas whose arrows all start
  and end at nodes of the node list. The JSON text itself is the work of \<open>json.dump\<close>
  and \<open>json.load\<close>; the model compares the data they are given and return.
\<close>

theorem save_load_save:
  "(save_diagram c = Inr d \<longrightarrow>
      fst (load_diagram fm d c0) = None \<and>
      save_diagram (snd (load_diagram fm d c0)) = Inr d) \<and>
   (list_all (\<lambda>a. start_node (arrow_obj c a) \<in> set (nodes c) \<and>
                   end_node (arrow_obj c a) \<in> set (nodes c)) (arrows c) \<longrightarrow>
      (\<exists>d. save_diagram c = Inr d))"
  using load_then_save [of _ fm c0] save_diagram_shape [of c] save_diagram_succeeds [of c]
  by blast

theorem save_load_save_witness:
  "save_diagram example_canvas = Inr example_diagram \<and>
   fst (load_diagram example_font example_diagram init_canvas) = None \<and>
   save_diagram (snd (load_diagram example_font example_diagram init_canvas)) =
     Inr example_diagram"
proof -
  have "node_indices [0, 1, 2] 0 = Some 0" "node_indices [0, 1, 2] 1 = Some 1"
    "node_indices [0, 1, 2] 2 = Some 2"
    by (simp_all add: node_indices_def)
  then have s: "save_diagram example_canvas = Inr example_diagram"
    by (simp add: save_diagram_def example_canvas_fields example_diagram_def arrow_to_dict_def
        to_dict_def)
  from save_load_save [of example_canvas example_diagram example_font init_canvas] s
  show ?thesis
    by simp
qed

section \<open>Loading a document with an index out of range\<close>

lemma py_index_raises:
  "\<not> python_range (length xs) i \<Longrightarrow> py_index xs i = Inl IndexError"
  by (auto simp: py_index_def python_range_def Let_def)

lemma py_index_returns:
  "python_range (length xs) i \<Longrightarrow> \<exists>x. py_index xs i = Inr x"
  by (auto simp: py_index_def python_range_def Let_def)

lemma load_nodes_nodes:
  "nodes (load_nodes fm nds c) =
     nodes c @ [next_node c ..< next_node c + length (filter known_type nds)] \<and>
   next_node (load_nodes fm nds c) = next_node c + length (filter known_type nds)"
proof (induction nds arbitrary: c)
  case Nil
  show ?case by simp
next
  case (Cons nd nds)
  show ?case
    by (simp add: Cons.IH known_type_def append_node_def upt_rec [of "next_node c"])
qed

lemma load_arrows_raises:
  assumes "\<not> list_all (resolves (length (nodes c))) ads"
  shows "fst (load_arrows ads c) = Some IndexError \<and>
         length (arrows (snd (load_arrows ads c))) =
           length (arrows c) + length (takeWhile (resolves (length (nodes c))) ads)"
  using assms
proof (induction ads arbitrary: c)
  case Nil
  then show ?case by simp
next
  case (Cons ad ads)
  show ?case
  proof (cases "resolves (length (nodes c)) ad")
    case False
    then have "py_index (nodes c) (d_start ad) = Inl IndexError \<or>
               (\<exists>s. py_index (nodes c) (d_start ad) = Inr s) \<and>
               py_index (nodes c) (d_end ad) = Inl IndexError"
      using py_index_raises [of "nodes c"] py_index_returns [of "nodes c"]
      by (auto simp: resolves_def)
    with False show ?thesis by auto
  next
    case True
    then obtain s e where s: "py_index (nodes c) (d_start ad) = Inr s"
      and e: "py_index (nodes c) (d_end ad) = Inr e"
      using py_index_returns [of "nodes c" "d_start ad"] py_index_returns [of "nodes c" "d_end ad"]
      by (auto simp: resolves_def)
    let ?c1 = "append_arrow s e c"
    have n1: "nodes ?c1 = nodes c" and a1: "length (arrows ?c1) = Suc (length (arrows c))"
      by (simp_all add: append_arrow_def)
    from True Cons.prems have "\<not> list_all (resolves (length (nodes ?c1))) ads"
      by (simp add: n1)
    then have "fst (load_arrows ads ?c1) = Some IndexError \<and>
               length (arrows (snd (load_arrows ads ?c1))) =
                 length (arrows ?c1) + length (takeWhile (resolves (length (nodes ?c1))) ads)"
      by (rule Cons.IH)
    with True show ?thesis by (simp add: s e n1 a1)
  qed
qed


lemma load_diagram_raises:
  assumes "\<not> list_all (resolves (length (filter known_type (d_nodes data)))) (d_arrows data)"
  shows "fst (load_diagram fm data c) = Some IndexError \<and>
         nodes (snd (load_diagram fm data c)) =
           [next_node c ..< next_node c + length (filter known_type (d_nodes data))] \<and>
         length (arrows (snd (load_diagram fm data c))) =
           length (takeWhile (resolves (length (filter known_type (d_nodes data)))) (d_arrows data)) \<and>
         selected_node (snd (load_diagram fm data c)) = selected_node c \<and>
         selected_arrow (snd (load_diagram fm data c)) = selected_arrow c \<and>
         arrow_source_node (snd (load_diagram fm data c)) = arrow_source_node c"
proof -
  define c2 where "c2 = load_nodes fm (d_nodes data) (c\<lparr>nodes := [], arrows := []\<rparr>)"
  have n2: "nodes c2 = [next_node c ..< next_node c + length (filter known_type (d_nodes data))]"
    using load_nodes_nodes [of fm "d_nodes data" "c\<lparr>nodes := [], arrows := []\<rparr>"]
    by (simp add: c2_def)
  then have len: "length (nodes c2) = length (filter known_type (d_nodes data))"
    by simp
  have a2: "arrows c2 = []"
    and keep: "selected_node c2 = selected_node c" "selected_arrow c2 = selected_arrow c"
      "arrow_source_node c2 = arrow_source_node c"
    by (simp_all add: c2_def)
  from assms len have "\<not> list_all (resolves (length (nodes c2))) (d_arrows data)"
    by simp
  from load_arrows_raises [OF this] a2 len
  have raised: "fst (load_arrows (d_arrows data) c2) = Some IndexError"
    and count: "length (arrows (snd (load_arrows (d_arrows data) c2))) =
      length (takeWhile (resolves (length (filter known_type (d_nodes data)))) (d_arrows data))"
    by simp_all
  from raised have "load_diagram fm data c =
      (Some IndexError, snd (load_arrows (d_arrows data) c2))"
    by (cases "load_arrows (d_arrows data) c2") (simp add: load_diagram_def Let_def c2_def)
  with n2 count keep show ?thesis by simp
qed

text \<open>
  C1 as stated fails. On the document of the out-of-range scenario the load does raise
  \<open>IndexError\<close>, but the canvas it leaves is not the one it found: the three nodes and
  two arrows of the example session are gone, and the node list holds the two nodes of
  the file.
\<close>

theorem load_error_mutates_document:
  "fst (load_diagram example_font out_of_range_diagram example_canvas) = Some IndexError \<and>
   nodes example_canvas = [0, 1, 2] \<and>
   nodes (snd (load_diagram example_font out_of_range_diagram example_canvas)) = [3, 4] \<and>
   arrows example_canvas = [0, 1] \<and>
   arrows (snd (load_diagram example_font out_of_range_diagram example_canvas)) = [] \<and>
   nodes (snd (load_diagram example_font out_of_range_diagram example_canvas)) \<noteq>
     nodes example_canvas \<and>
   arrows (snd (load_diagram example_font out_of_range_diagram example_canvas)) \<noteq>
     arrows example_canvas"
  by (simp add: load_diagram_def out_of_range_diagram_def py_index_def append_node_def
      example_canvas_fields)

text \<open>
  C1, amended. When some arrow entry of the document has a start or end index \<open>i\<close> that
  Python's list indexing rejects (\<open>i \<ge> nodeCount\<close> or \<open>i < -nodeCount\<close>, where
  \<open>nodeCount\<close> is the number of node entries of known type), \<open>load_diagram\<close> raises
  \<open>IndexError\<close> at the first such entry. The previous document is not kept: the two
  lists were cleared first, and at the raise the node list holds the nodes constructed
  from the file and the arrow list the arrows of the entries before the failing one. The
  selection and the pending source are as they were before the load.
\<close>

theorem load_out_of_range_raises:
  assumes "\<not> list_all (resolves (length (filter known_type (d_nodes data)))) (d_arrows data)"
  shows "fst (load_diagram fm data c) = Some IndexError \<and>
         nodes (snd (load_diagram fm data c)) =
           [next_node c ..< next_node c + length (filter known_type (d_nodes data))] \<and>
         length (arrows (snd (load_diagram fm data c))) =
           length (takeWhile (resolves (length (filter known_type (d_nodes data)))) (d_arrows data)) \<and>
         selected_node (snd (load_diagram fm data c)) = selected_node c \<and>
         selected_arrow (snd (load_diagram fm data c)) = selected_arrow c \<and>
         arrow_source_node (snd (load_diagram fm data c)) = arrow_source_node c"
  using assms by (rule load_diagram_raises)

theorem load_out_of_range_raises_witness:
  "\<not> list_all (resolves (length (filter known_type (d_nodes out_of_range_diagram))))
        (d_arrows out_of_range_diagram) \<and>
   fst (load_diagram example_font out_of_range_diagram example_canvas) = Some IndexError \<and>
   nodes (snd (load_diagram example_font out_of_range_diagram example_canvas)) = [3, 4] \<and>
   length (arrows (snd (load_diagram example_font out_of_range_diagram example_canvas))) = 0 \<and>
   selected_node (snd (load_diagram example_font out_of_range_diagram example_canvas)) = Some 2"
proof -
  have bad: "\<not> list_all (resolves (length (filter known_type (d_nodes out_of_range_diagram))))
               (d_arrows out_of_range_diagram)"
    by (simp add: out_of_range_diagram_def known_type_def resolves_def python_range_def)
  have two: "length (filter known_type (d_nodes out_of_range_diagram)) = 2"
    by (simp add: out_of_range_diagram_def known_type_def)
  have none: "takeWhile (resolves 2) (d_arrows out_of_range_diagram) = []"
    by (simp add: out_of_range_diagram_def resolves_def python_range_def)
  have upt: "[3 ..< 5] = [3, 4::nat]"
    by (simp add: upt_rec)
  from load_out_of_range_raises [OF bad, of example_font example_canvas] bad show ?thesis
    by (simp add: two none upt example_canvas_fields)
qed

section \<open>A pending link source that has been deleted\<close>

text \<open>
  C2 does not hold of the code. \<open>delete_selected_node\<close> resets \<open>selected_node\<close> but
  not \<open>arrow_source_node\<close> (\<open>load_diagram\<close> resets both), so a deleted node can stay
  the pending source, and the next right press on another node appends an arrow that
  starts at it. After the events of \<open>dangling_events\<close> the node list is \<open>[1]\<close> and the
  arrow list holds one arrow, from node \<open>0\<close> to node \<open>1\<close>: its source is not in the
  node list. Saving this canvas raises \<open>KeyError\<close>.
\<close>

theorem deleted_source_leaves_dangling_arrow:
  "fst (run example_font dangling_events init_canvas) = None \<and>
   nodes (snd (run example_font dangling_events init_canvas)) = [1] \<and>
   arrows (snd (run example_font dangling_events init_canvas)) = [0] \<and>
   start_node (arrow_obj (snd (run example_font dangling_events init_canvas)) 0) = 0 \<and>
   end_node (arrow_obj (snd (run example_font dangling_events init_canvas)) 0) = 1 \<and>
   save_diagram (snd (run example_font dangling_events init_canvas)) = Inl KeyError"
proof -
  have r: "run example_font dangling_events init_canvas =
    (None,
     \<lparr>node_obj =
        (\<lambda>_. \<lparr>n_class = Node, n_x = 0, n_y = 0, n_text = [],
                n_selected = False, n_w = 0, n_h = 0\<rparr>)
        (0 := \<lparr>n_class = Node, n_x = 20, n_y = 20, n_text = ''Node 1'',
                 n_selected = True, n_w = 66, n_h = 28\<rparr>,
         Suc 0 := \<lparr>n_class = Node, n_x = 20, n_y = 20, n_text = ''Node 1'',
                 n_selected = False, n_w = 66, n_h = 28\<rparr>),
      arrow_obj =
        (\<lambda>_. \<lparr>start_node = 0, end_node = 0, a_selected = False\<rparr>)
        (0 := \<lparr>start_node = 0, end_node = Suc 0, a_selected = False\<rparr>),
      next_node = Suc (Suc 0), next_arrow = Suc 0,
      nodes = [Suc 0], arrows = [0],
      dragging_node = None, drag_offset = (5, 5),
      selected_node = None, selected_arrow = None,
      arrow_source_node = None, zoom = 1, editing_node = None\<rparr>)"
    by (simp add: dangling_events_def handler_defs Let_def)
  show ?thesis
    by (simp add: r save_diagram_def node_indices_def arrow_to_dict_def)
qed

end
